theory Spec2Isabelle
  imports Main
begin

section \<open>Python values, errors and dictionaries\<close>

text \<open>
  A naive \<open>datetime\<close>: the seven fields Python compares, in this order. Time zones are
  not modelled: the store returns instants as naive UTC datetimes, and the two bounds of
  the query are naive as well.
\<close>

record datetime =
  year :: nat
  month :: nat
  day :: nat
  hour :: nat
  minute :: nat
  second :: nat
  microsecond :: nat

text \<open>
  The values a record field can hold in this program: a \<open>str\<close> read from the file,
  \<open>None\<close> (the filler of \<open>csv.DictReader\<close> for a short row), the \<open>datetime\<close> stored
  under \<open>order_date\<close>, and the \<open>bool\<close> literal that \<open>generate_amazon_xml\<close> passes as the
  default of the flag fields. Strings are ASCII text, one \<open>char\<close> per code point.
\<close>

datatype pyval = Str string | NoneVal | Bool bool | Datetime datetime

datatype error =
    KeyError string
  | IndexError
  | TypeError
  | ValueError
  | ExpatError
  | CsvError

type_synonym dict = "string \<rightharpoonup> pyval"

text \<open>\<open>d[k]\<close>: raises \<open>KeyError\<close> when the key is absent.\<close>

definition getitem :: "dict \<Rightarrow> string \<Rightarrow> error + pyval" where
  "getitem d k = (case d k of None \<Rightarrow> Inl (KeyError k) | Some v \<Rightarrow> Inr v)"

text \<open>\<open>d.get(k, default)\<close>.\<close>

definition get :: "dict \<Rightarrow> string \<Rightarrow> pyval \<Rightarrow> pyval" where
  "get d k dflt = (case d k of None \<Rightarrow> dflt | Some v \<Rightarrow> v)"

text \<open>
  A Python \<open>dict\<close> whose iteration order matters is an association list with distinct
  keys, in insertion order. \<open>contains\<close> is \<open>k in d\<close>; \<open>setitem_new\<close> is \<open>d[k] = v\<close> for a
  key that is not in \<open>d\<close> (a new key goes last); \<open>append_at\<close> is \<open>d[k].append(x)\<close> for a
  key that is in \<open>d\<close> (the entry keeps its place).
\<close>

type_synonym ('k, 'v) odict = "('k \<times> 'v) list"

definition contains :: "('k, 'v) odict \<Rightarrow> 'k \<Rightarrow> bool" where
  "contains d k = (k \<in> set (map fst d))"

definition setitem_new :: "('k, 'v) odict \<Rightarrow> 'k \<Rightarrow> 'v \<Rightarrow> ('k, 'v) odict" where
  "setitem_new d k v = d @ [(k, v)]"

definition append_at :: "('k, 'a list) odict \<Rightarrow> 'k \<Rightarrow> 'a \<Rightarrow> ('k, 'a list) odict" where
  "append_at d k x = map (\<lambda>(k', xs). if k' = k then (k', xs @ [x]) else (k', xs)) d"

section \<open>Grouping: the two loops of \<open>run\<close>\<close>

text \<open>
  Lines 255 to 260 of \<open>run\<close>:
  \<^verbatim>\<open>
  collection_per_channel = {}
  for item in data:
      channel = item["sales-channel"]
      if channel not in collection_per_channel:
          collection_per_channel[channel] = []
      collection_per_channel[channel].append(item)
  \<close>
  The first argument is the dictionary built so far.
\<close>

fun collect_per_channel ::
  "(pyval, dict list) odict \<Rightarrow> dict list \<Rightarrow> error + (pyval, dict list) odict" where
  "collect_per_channel cpc [] = Inr cpc"
| "collect_per_channel cpc (item # data) =
     (case getitem item ''sales-channel'' of
        Inl e \<Rightarrow> Inl e
      | Inr channel \<Rightarrow>
          (let cpc1 = (if \<not> contains cpc channel then setitem_new cpc channel [] else cpc)
           in collect_per_channel (append_at cpc1 channel item) data))"

text \<open>
  Lines 265 to 272 of \<open>run\<close>, for one channel:
  \<^verbatim>\<open>
  order_grouped_with_order_lines = {}
  for order in orders:
      order_id = order["order-id"]
      if order_id not in order_grouped_with_order_lines:
          order_grouped_with_order_lines[order_id] = {"orders": []}
      order_grouped_with_order_lines[order_id]["orders"].append(order)
  \<close>
  The inner dictionary has the one key \<open>"orders"\<close>; it is modelled by the list it holds.
\<close>

fun group_order_lines ::
  "(pyval, dict list) odict \<Rightarrow> dict list \<Rightarrow> error + (pyval, dict list) odict" where
  "group_order_lines og [] = Inr og"
| "group_order_lines og (order # orders) =
     (case getitem order ''order-id'' of
        Inl e \<Rightarrow> Inl e
      | Inr order_id \<Rightarrow>
          (let og1 = (if \<not> contains og order_id then setitem_new og order_id [] else og)
           in group_order_lines (append_at og1 order_id order) orders))"

text \<open>
  The grouped structure of a whole record sequence: every channel batch with its orders.
  \<open>run\<close> builds the order dictionary of a channel inside its loop over the channels.
\<close>

fun group_channels ::
  "(pyval, dict list) odict \<Rightarrow> error + (pyval, (pyval, dict list) odict) odict" where
  "group_channels [] = Inr []"
| "group_channels ((channel_name, orders) # rest) =
     (case group_order_lines [] orders of
        Inl e \<Rightarrow> Inl e
      | Inr og \<Rightarrow>
          (case group_channels rest of
             Inl e \<Rightarrow> Inl e
           | Inr gs \<Rightarrow> Inr ((channel_name, og) # gs)))"

definition grouped :: "dict list \<Rightarrow> error + (pyval, (pyval, dict list) odict) odict" where
  "grouped data =
     (case collect_per_channel [] data of
        Inl e \<Rightarrow> Inl e
      | Inr cpc \<Rightarrow> group_channels cpc)"

text \<open>The slots of a grouped structure: one per channel and order id, with its lines.\<close>

definition slots ::
  "(pyval, (pyval, dict list) odict) odict \<Rightarrow> ((pyval \<times> pyval) \<times> dict list) list" where
  "slots g = concat (map (\<lambda>(c, og). map (\<lambda>(oid, ls). ((c, oid), ls)) og) g)"

definition total_lines :: "(pyval, (pyval, dict list) odict) odict \<Rightarrow> nat" where
  "total_lines g = sum_list (map (\<lambda>(k, ls). length ls) (slots g))"

text \<open>The keys of a sequence in the order of their first appearance.\<close>

fun first_seen :: "'a list \<Rightarrow> 'a list" where
  "first_seen [] = []"
| "first_seen (x # xs) = x # filter (\<lambda>y. y \<noteq> x) (first_seen xs)"

text \<open>
  The loop shared by both groupings, for a key that every element has: used only to
  reason about the two loops above.
\<close>

fun group_loop :: "('a \<Rightarrow> 'k) \<Rightarrow> ('k, 'a list) odict \<Rightarrow> 'a list \<Rightarrow> ('k, 'a list) odict" where
  "group_loop key acc [] = acc"
| "group_loop key acc (x # xs) =
     group_loop key
       (append_at (if \<not> contains acc (key x) then setitem_new acc (key x) [] else acc) (key x) x)
       xs"

definition values_at :: "('k, 'a list) odict \<Rightarrow> 'k \<Rightarrow> 'a list" where
  "values_at d k = (case map_of d k of None \<Rightarrow> [] | Some xs \<Rightarrow> xs)"

text \<open>The number of lines held by one dictionary of lists.\<close>

definition lines_total :: "('k, 'a list) odict \<Rightarrow> nat" where
  "lines_total d = sum_list (map (\<lambda>(k, ls). length ls) d)"

text \<open>The value of a field every record has (\<open>None\<close> stands in where it is absent).\<close>

definition field :: "string \<Rightarrow> dict \<Rightarrow> pyval" where
  "field k r = get r k NoneVal"

section \<open>Example inputs\<close>

text \<open>Three lines with one order id, the second under another channel.\<close>

definition rec_a1 :: dict where
  "rec_a1 = [''sales-channel'' \<mapsto> Str ''Amazon.com'', ''order-id'' \<mapsto> Str ''111'', ''sku'' \<mapsto> Str ''A'']"

definition rec_b1 :: dict where
  "rec_b1 = [''sales-channel'' \<mapsto> Str ''Amazon.ca'', ''order-id'' \<mapsto> Str ''111'', ''sku'' \<mapsto> Str ''B'']"

definition rec_a2 :: dict where
  "rec_a2 = [''sales-channel'' \<mapsto> Str ''Amazon.com'', ''order-id'' \<mapsto> Str ''111'', ''sku'' \<mapsto> Str ''C'']"

section \<open>Strings: \<open>str\<close> and \<open>lower\<close>\<close>

text \<open>\<open>str(n)\<close> for a non-negative integer: its decimal digits.\<close>

definition digit_char :: "nat \<Rightarrow> char" where
  "digit_char d = ''0123456789'' ! d"

fun str_nat :: "nat \<Rightarrow> string" where
  "str_nat n = (if n < 10 then [digit_char n] else str_nat (n div 10) @ [digit_char (n mod 10)])"

declare str_nat.simps [simp del]

text \<open>The digits of \<open>n\<close>, padded with zeros on the left to \<open>w\<close> characters (\<open>"%02d"\<close>).\<close>

definition zero_pad :: "nat \<Rightarrow> nat \<Rightarrow> string" where
  "zero_pad w n = replicate (w - length (str_nat n)) CHR ''0'' @ str_nat n"

text \<open>
  \<open>str(v)\<close>. For a \<open>datetime\<close> it is \<open>isoformat(sep=' ')\<close>, the fraction only when
  the microsecond is not zero.
\<close>

definition str_datetime :: "datetime \<Rightarrow> string" where
  "str_datetime d =
     zero_pad 4 (year d) @ ''-'' @ zero_pad 2 (month d) @ ''-'' @ zero_pad 2 (day d) @ '' '' @
     zero_pad 2 (hour d) @ '':'' @ zero_pad 2 (minute d) @ '':'' @ zero_pad 2 (second d) @
     (if microsecond d = 0 then [] else ''.'' @ zero_pad 6 (microsecond d))"

fun py_str :: "pyval \<Rightarrow> string" where
  "py_str (Str s) = s"
| "py_str NoneVal = ''None''"
| "py_str (Bool b) = (if b then ''True'' else ''False'')"
| "py_str (Datetime d) = str_datetime d"

text \<open>\<open>s.lower()\<close> on ASCII text: the letters A to Z change, nothing else does.\<close>

definition lower_char :: "char \<Rightarrow> char" where
  "lower_char c =
     (case map_of (zip ''ABCDEFGHIJKLMNOPQRSTUVWXYZ'' ''abcdefghijklmnopqrstuvwxyz'') c of
        None \<Rightarrow> c
      | Some l \<Rightarrow> l)"

definition lower :: "string \<Rightarrow> string" where
  "lower s = map lower_char s"

section \<open>The element tree\<close>

text \<open>
  An \<open>xml.etree.ElementTree.Element\<close>: tag, attributes in insertion order, the \<open>text\<close>
  attribute (any Python value; \<open>None\<close> until assigned) and the sub-elements.
\<close>

datatype xml = Element (tag: string) (attrib: "(string \<times> pyval) list") (text_of: pyval)
  (children: "xml list")

text \<open>
  The statements of \<open>generate_amazon_xml\<close> run in sequence and the first \<open>KeyError\<close>
  ends the call. Each statement is modelled by a value of \<open>error + xml\<close>; \<open>sequence\<close>
  returns the first error of a list of them, in order, or all their results.
\<close>

fun sequence :: "(error + 'a) list \<Rightarrow> error + 'a list" where
  "sequence [] = Inr []"
| "sequence (Inl e # rs) = Inl e"
| "sequence (Inr x # rs) = (case sequence rs of Inl e \<Rightarrow> Inl e | Inr xs \<Rightarrow> Inr (x # xs))"

text \<open>\<open>ET.SubElement(parent, tag).text = value\<close>: the value is computed first.\<close>

definition leaf :: "string \<Rightarrow> error + pyval \<Rightarrow> error + xml" where
  "leaf tg value = (case value of Inl e \<Rightarrow> Inl e | Inr v \<Rightarrow> Inr (Element tg [] v []))"

text \<open>
  \<open>x = ET.SubElement(parent, tag)\<close> followed by the statements that fill \<open>x\<close>: the text
  of \<open>x\<close> stays \<open>None\<close>.
\<close>

definition node :: "string \<Rightarrow> (string \<times> pyval) list \<Rightarrow> (error + xml) list \<Rightarrow> error + xml" where
  "node tg attrs subs =
     (case sequence subs of Inl e \<Rightarrow> Inl e | Inr es \<Rightarrow> Inr (Element tg attrs NoneVal es))"

section \<open>\<open>generate_amazon_xml\<close>: building the envelope\<close>

text \<open>
  \<^verbatim>\<open>ET.SubElement(component_element, "Amount", {"currency": item["currency"]}).text = str(item[key])\<close>
  The right-hand side is evaluated before the target, so \<open>item[key]\<close> is read before
  \<open>item["currency"]\<close>.
\<close>

definition amount :: "dict \<Rightarrow> string \<Rightarrow> error + xml" where
  "amount item key =
     (case getitem item key of
        Inl e \<Rightarrow> Inl e
      | Inr v \<Rightarrow>
          (case getitem item ''currency'' of
             Inl e \<Rightarrow> Inl e
           | Inr c \<Rightarrow> Inr (Element ''Amount'' [(''currency'', c)] (Str (py_str v)) [])))"

text \<open>One \<open>Component\<close> of \<open>ItemPrice\<close> (lines 199 to 213) and the \<open>Fee\<close> (lines 219 to 221).\<close>

definition component :: "dict \<Rightarrow> string \<Rightarrow> string \<Rightarrow> error + xml" where
  "component item ty key =
     node ''Component'' [] [leaf ''Type'' (Inr (Str ty)), amount item key]"

definition fee :: "dict \<Rightarrow> string \<Rightarrow> string \<Rightarrow> error + xml" where
  "fee item ty key =
     node ''Fee'' [] [leaf ''Type'' (Inr (Str ty)), amount item key]"

text \<open>The body of the loop over the lines of an order (lines 188 to 221).\<close>

definition str_of :: "error + pyval \<Rightarrow> error + pyval" where
  "str_of value = (case value of Inl e \<Rightarrow> Inl e | Inr v \<Rightarrow> Inr (Str (py_str v)))"

definition item_element :: "dict \<Rightarrow> error + xml" where
  "item_element item =
     node ''Item'' []
       [leaf ''AmazonOrderItemCode'' (getitem item ''order-item-id''),
        leaf ''SKU'' (getitem item ''sku''),
        leaf ''Title'' (getitem item ''product-name''),
        leaf ''Quantity'' (str_of (getitem item ''quantity-purchased'')),
        leaf ''ProductTaxCode'' (Inr (Str ''A_GEN_STANDARD'')),
        node ''ItemPrice'' []
          [component item ''Principal'' ''item-price'',
           component item ''Shipping'' ''shipping-price'',
           component item ''Tax'' ''item-tax'',
           component item ''ShippingTax'' ''shipping-tax''],
        node ''ItemFees'' [] [fee item ''Commission'' ''payment-method-fee'']]"

text \<open>Billing data (lines 150 to 163).\<close>

definition billing_data :: "dict \<Rightarrow> error + xml" where
  "billing_data order =
     node ''BillingData'' []
       [leaf ''BuyerEmailAddress'' (getitem order ''buyer-email''),
        leaf ''BuyerName'' (getitem order ''buyer-name''),
        leaf ''BuyerPhoneNumber'' (Inr (get order ''buyer-phone-number'' (Str ''''))),
        node ''Address'' []
          [leaf ''Name'' (getitem order ''bill-name''),
           leaf ''AddressFieldOne'' (getitem order ''bill-address-1''),
           leaf ''AddressFieldTwo'' (getitem order ''bill-address-2''),
           leaf ''AddressFieldThree'' (getitem order ''bill-address-3''),
           leaf ''City'' (getitem order ''bill-city''),
           leaf ''StateOrRegion'' (getitem order ''bill-state''),
           leaf ''PostalCode'' (getitem order ''bill-postal-code''),
           leaf ''CountryCode'' (getitem order ''bill-country'')]]"

text \<open>Fulfillment data (lines 166 to 179).\<close>

definition fulfillment_data :: "dict \<Rightarrow> error + xml" where
  "fulfillment_data order =
     node ''FulfillmentData'' []
       [leaf ''FulfillmentMethod'' (Inr (Str ''Ship'')),
        leaf ''FulfillmentServiceLevel'' (getitem order ''ship-service-level''),
        node ''Address'' []
          [leaf ''Name'' (getitem order ''recipient-name''),
           leaf ''AddressFieldOne'' (getitem order ''ship-address-1''),
           leaf ''AddressFieldTwo'' (getitem order ''ship-address-2''),
           leaf ''AddressFieldThree'' (getitem order ''ship-address-3''),
           leaf ''City'' (getitem order ''ship-city''),
           leaf ''StateOrRegion'' (getitem order ''ship-state''),
           leaf ''PostalCode'' (getitem order ''ship-postal-code''),
           leaf ''CountryCode'' (getitem order ''ship-country''),
           leaf ''PhoneNumber'' (Inr (get order ''ship-phone-number'' (Str '''')))]]"

text \<open>\<open>str(order.get(key, False)).lower()\<close> (lines 182 to 185).\<close>

definition flag_text :: "dict \<Rightarrow> string \<Rightarrow> pyval" where
  "flag_text order key = Str (lower (py_str (get order key (Bool False))))"

text \<open>
  The \<open>OrderReport\<close> of one order (lines 143 to 221): \<open>order\<close> is the first line of the
  order, \<open>lines\<close> are all of them, \<open>session_id\<close> is the value of \<open>str(uuid.uuid4())\<close>.
\<close>

definition order_report :: "pyval \<Rightarrow> dict \<Rightarrow> dict list \<Rightarrow> string \<Rightarrow> error + xml" where
  "order_report order_id order lines session_id =
     node ''OrderReport'' []
       ([leaf ''AmazonOrderID'' (Inr order_id),
         leaf ''AmazonSessionID'' (Inr (Str session_id)),
         leaf ''OrderDate'' (getitem order ''purchase-date''),
         leaf ''OrderPostedDate'' (getitem order ''payments-date''),
         billing_data order,
         fulfillment_data order,
         leaf ''IsBusinessOrder'' (Inr (flag_text order ''is-business-order'')),
         leaf ''IsPrime'' (Inr (flag_text order ''is-prime'')),
         leaf ''IsPremiumOrder'' (Inr (flag_text order ''is-premium-order'')),
         leaf ''IsIba'' (Inr (flag_text order ''is-iba''))]
        @ map item_element lines)"

text \<open>
  One turn of the loop over the orders (lines 136 to 221). \<open>orders[order_id]["orders"][0]\<close>
  raises \<open>IndexError\<close> on an order without lines.
\<close>

definition message :: "nat \<Rightarrow> pyval \<Rightarrow> dict list \<Rightarrow> string \<Rightarrow> error + xml" where
  "message message_id order_id lines session_id =
     (case lines of
        [] \<Rightarrow> Inl IndexError
      | order # _ \<Rightarrow>
          node ''Message'' []
            [leaf ''MessageID'' (Inr (Str (str_nat message_id))),
             order_report order_id order lines session_id])"

text \<open>
  The tree that \<open>generate_amazon_xml\<close> serializes (lines 124 to 221). \<open>orders\<close> is the
  dictionary from order id to lines, in insertion order; \<open>uuid4 k\<close> is the value of
  the \<open>k\<close>-th call of \<open>str(uuid.uuid4())\<close>, the one made for the message numbered \<open>k\<close>.
\<close>

definition amazon_envelope ::
  "(pyval, dict list) odict \<Rightarrow> string \<Rightarrow> (nat \<Rightarrow> string) \<Rightarrow> error + xml" where
  "amazon_envelope orders merchant_id uuid4 =
     node ''AmazonEnvelope''
       [(''xmlns:xsi'', Str ''http://www.w3.org/2001/XMLSchema-instance''),
        (''xsi:noNamespaceSchemaLocation'', Str ''amzn-envelope.xsd'')]
       ([node ''Header'' []
           [leaf ''DocumentVersion'' (Inr (Str ''1.01'')),
            leaf ''MerchantIdentifier'' (Inr (Str merchant_id))],
         leaf ''MessageType'' (Inr (Str ''OrderReport''))]
        @ map (\<lambda>(message_id, order_id, lines).
                 message message_id order_id lines (uuid4 message_id))
            (enumerate 1 orders))"

section \<open>Reading an element tree\<close>

text \<open>
  What \<open>Element.findall(tag)\<close> and \<open>Element.find(path)\<close> return: the children with a
  tag, in document order, and the first element reached by a path of tags.
\<close>

definition findall :: "string \<Rightarrow> xml \<Rightarrow> xml list" where
  "findall tg e = filter (\<lambda>c. tag c = tg) (children e)"

fun find_path :: "string list \<Rightarrow> xml \<Rightarrow> xml option" where
  "find_path [] e = Some e"
| "find_path (tg # path) e =
     (case find (\<lambda>c. tag c = tg) (children e) of
        None \<Rightarrow> None
      | Some c \<Rightarrow> find_path path c)"

definition findtext :: "string list \<Rightarrow> xml \<Rightarrow> pyval option" where
  "findtext path e = map_option text_of (find_path path e)"

text \<open>
  A complete line: every field that \<open>generate_amazon_xml\<close> requires, none of the optional
  ones, for a given channel, order id and item id.
\<close>

definition full_line :: "string \<Rightarrow> string \<Rightarrow> string \<Rightarrow> dict" where
  "full_line channel oid item_id =
     map_of
       [(''sales-channel'', Str channel),
        (''order-id'', Str oid),
        (''order-item-id'', Str item_id),
        (''purchase-date'', Str ''2024-12-25T10:00:00''),
        (''payments-date'', Str ''2024-12-25T10:05:00''),
        (''buyer-email'', Str ''a@example.com''),
        (''buyer-name'', Str ''Ann''),
        (''bill-name'', Str ''Ann''),
        (''bill-address-1'', Str ''1 Main St''),
        (''bill-address-2'', Str ''''),
        (''bill-address-3'', Str ''''),
        (''bill-city'', Str ''Springfield''),
        (''bill-state'', Str ''IL''),
        (''bill-postal-code'', Str ''62701''),
        (''bill-country'', Str ''US''),
        (''ship-service-level'', Str ''Standard''),
        (''recipient-name'', Str ''Ann''),
        (''ship-address-1'', Str ''1 Main St''),
        (''ship-address-2'', Str ''''),
        (''ship-address-3'', Str ''''),
        (''ship-city'', Str ''Springfield''),
        (''ship-state'', Str ''IL''),
        (''ship-postal-code'', Str ''62701''),
        (''ship-country'', Str ''US''),
        (''sku'', Str ''SKU-1''),
        (''product-name'', Str ''Widget''),
        (''quantity-purchased'', Str ''2''),
        (''currency'', Str ''USD''),
        (''item-price'', Str ''19.99''),
        (''shipping-price'', Str ''4.50''),
        (''item-tax'', Str ''1.60''),
        (''shipping-tax'', Str ''0.36''),
        (''payment-method-fee'', Str ''0.00''),
        (''is-buyer-requested-cancellation'', Str ''false'')]"

definition uuid_fixed :: "nat \<Rightarrow> string" where
  "uuid_fixed k = ''00000000-0000-4000-8000-000000000000''"

text \<open>A complete line that also carries the four flags, in mixed case.\<close>

definition flagged_line :: dict where
  "flagged_line =
     (full_line ''A'' ''111'' ''1'')
       (''is-business-order'' \<mapsto> Str ''True'', ''is-prime'' \<mapsto> Str ''TRUE'',
        ''is-premium-order'' \<mapsto> Str ''false'', ''is-iba'' \<mapsto> Str ''FALSE'')"

section \<open>The store query\<close>

text \<open>\<open>datetime(y, mo, d, h, mi, s)\<close>: the microsecond is 0.\<close>

definition mk_datetime :: "nat \<Rightarrow> nat \<Rightarrow> nat \<Rightarrow> nat \<Rightarrow> nat \<Rightarrow> nat \<Rightarrow> datetime" where
  "mk_datetime y mo d h mi s =
     \<lparr>year = y, month = mo, day = d, hour = h, minute = mi, second = s, microsecond = 0\<rparr>"

text \<open>
  The order of naive datetimes: field by field, year first. For valid dates this is
  the order of the instants, which is what the store compares.
\<close>

fun lex_less :: "nat list \<Rightarrow> nat list \<Rightarrow> bool" where
  "lex_less (x # xs) (y # ys) = (x < y \<or> (x = y \<and> lex_less xs ys))"
| "lex_less xs ys = False"

definition dt_key :: "datetime \<Rightarrow> nat list" where
  "dt_key d = [year d, month d, day d, hour d, minute d, second d, microsecond d]"

definition dt_less :: "datetime \<Rightarrow> datetime \<Rightarrow> bool" where
  "dt_less a b = lex_less (dt_key a) (dt_key b)"

text \<open>
  A filter document as \<open>query_mongodb\<close> writes it: each field is matched either
  against a value or against a dictionary of comparison operators with date operands.
\<close>

datatype cond = Equals pyval | Operators "(string \<times> datetime) list"

type_synonym filter_doc = "(string \<times> cond) list"

text \<open>
  What the store does with a filter (the behaviour of MongoDB's \<open>find\<close>, which is not
  code of this repository). A comparison operator with a date operand holds only of a
  date value (values of another type, and missing fields, never match):
  \<open>$gt\<close> and \<open>$lt\<close> are strict, \<open>$gte\<close> and \<open>$lte\<close> are not. An equality holds of
  the equal value, and equality with \<open>None\<close> also of a missing field. A document
  matches when every field condition holds; \<open>find\<close> returns the matching documents
  of the collection.
\<close>

definition op_holds :: "string \<Rightarrow> datetime \<Rightarrow> pyval \<Rightarrow> bool" where
  "op_holds op bound v =
     (case v of
        Datetime d \<Rightarrow>
          if op = ''$gt'' then dt_less bound d
          else if op = ''$gte'' then \<not> dt_less d bound
          else if op = ''$lt'' then dt_less d bound
          else if op = ''$lte'' then \<not> dt_less bound d
          else False
      | _ \<Rightarrow> False)"

fun cond_holds :: "cond \<Rightarrow> pyval option \<Rightarrow> bool" where
  "cond_holds (Equals v) fv = (fv = Some v \<or> (v = NoneVal \<and> fv = None))"
| "cond_holds (Operators ops) fv =
     (case fv of None \<Rightarrow> False | Some x \<Rightarrow> list_all (\<lambda>(op, bound). op_holds op bound x) ops)"

definition matches :: "filter_doc \<Rightarrow> dict \<Rightarrow> bool" where
  "matches q doc = list_all (\<lambda>(k, c). cond_holds c (doc k)) q"

definition find_docs :: "filter_doc \<Rightarrow> dict list \<Rightarrow> dict list" where
  "find_docs q col = filter (matches q) col"

text \<open>
  \<open>query_mongodb\<close> (lines 55 to 70): the fixed filter, run on the documents of the
  collection.
\<close>

definition start_date :: datetime where
  "start_date = mk_datetime 2024 12 23 13 45 0"

definition end_date :: datetime where
  "end_date = mk_datetime 2025 1 2 17 15 0"

definition query :: filter_doc where
  "query =
     [(''order_date'', Operators [(''$gt'', start_date), (''$lt'', end_date)]),
      (''is-buyer-requested-cancellation'', Equals (Str ''false''))]"

definition query_mongodb :: "dict list \<Rightarrow> dict list" where
  "query_mongodb col = find_docs query col"

text \<open>A stored order whose date is the start instant, and one a second later.\<close>

definition doc_at_start :: dict where
  "doc_at_start =
     [''order_date'' \<mapsto> Datetime (mk_datetime 2024 12 23 13 45 0),
      ''is-buyer-requested-cancellation'' \<mapsto> Str ''false'']"

definition doc_after_start :: dict where
  "doc_after_start =
     [''order_date'' \<mapsto> Datetime (mk_datetime 2024 12 23 13 45 1),
      ''is-buyer-requested-cancellation'' \<mapsto> Str ''false'']"

section \<open>\<open>ET.tostring\<close>: the compact serialization\<close>

text \<open>
  \<open>_escape_cdata\<close> and \<open>_escape_attrib\<close> of \<open>xml.etree.ElementTree\<close>: the replacements
  are made one after the other, the ampersand first, which gives the same string as
  replacing each character on its own.
\<close>

definition escape_cdata :: "string \<Rightarrow> string" where
  "escape_cdata s =
     concat (map (\<lambda>c. if c = CHR ''&'' then ''&amp;''
                       else if c = CHR ''<'' then ''&lt;''
                       else if c = CHR ''>'' then ''&gt;''
                       else [c]) s)"

definition escape_attrib :: "string \<Rightarrow> string" where
  "escape_attrib s =
     concat (map (\<lambda>c. if c = CHR ''&'' then ''&amp;''
                       else if c = CHR ''<'' then ''&lt;''
                       else if c = CHR ''>'' then ''&gt;''
                       else if c = CHR 0x22 then ''&quot;''
                       else if c = CHR 0x0D then ''&#13;''
                       else if c = CHR 0x0A then ''&#10;''
                       else if c = CHR 0x09 then ''&#09;''
                       else [c]) s)"

text \<open>The truth value of a Python value, as \<open>if text:\<close> tests it.\<close>

fun truthy :: "pyval \<Rightarrow> bool" where
  "truthy (Str s) = (s \<noteq> [])"
| "truthy NoneVal = False"
| "truthy (Bool b) = b"
| "truthy (Datetime d) = True"

text \<open>
  One attribute and the text of an element, as \<open>_serialize_xml\<close> writes them. A value
  that is not a \<open>str\<close> makes the escape function raise \<open>TypeError\<close> (cannot serialize);
  a text that is false (\<open>None\<close>, the empty string, \<open>False\<close>) is not written at all.
\<close>

definition attr_part :: "string \<times> pyval \<Rightarrow> error + string" where
  "attr_part kv =
     (case snd kv of
        Str s \<Rightarrow> Inr ('' '' @ fst kv @ ''='' @ [CHR 0x22] @ escape_attrib s @ [CHR 0x22])
      | _ \<Rightarrow> Inl TypeError)"

definition text_part :: "pyval \<Rightarrow> error + string" where
  "text_part v =
     (if truthy v then (case v of Str s \<Rightarrow> Inr (escape_cdata s) | _ \<Rightarrow> Inl TypeError)
      else Inr [])"

text \<open>
  \<open>_serialize_xml\<close> with \<open>short_empty_elements\<close>: an element without text and without
  children is written \<open><tag />\<close>. The output is ASCII, so that encoding it as UTF-8
  changes nothing; no XML declaration is written for this encoding.
\<close>

fun serialize_xml :: "xml \<Rightarrow> error + string" where
  "serialize_xml (Element tg attrs txt cs) =
     (case sequence (map attr_part attrs) of
        Inl e \<Rightarrow> Inl e
      | Inr as \<Rightarrow>
          if truthy txt \<or> cs \<noteq> [] then
            (case text_part txt of
               Inl e \<Rightarrow> Inl e
             | Inr t \<Rightarrow>
                 (case sequence (map serialize_xml cs) of
                    Inl e \<Rightarrow> Inl e
                  | Inr ss \<Rightarrow>
                      Inr (''<'' @ tg @ concat as @ ''>'' @ t @ concat ss @ ''</'' @ tg @ ''>'')))
          else Inr (''<'' @ tg @ concat as @ '' />''))"


text \<open>
  The comparison that leaves the session ids out: the text of every \<open>AmazonSessionID\<close>
  element is blanked before the tree is serialized.
\<close>

fun erase_session :: "xml \<Rightarrow> xml" where
  "erase_session (Element tg attrs txt cs) =
     Element tg attrs (if tg = ''AmazonSessionID'' then Str [] else txt) (map erase_session cs)"

definition output_without_session ::
  "(pyval, dict list) odict \<Rightarrow> string \<Rightarrow> (nat \<Rightarrow> string) \<Rightarrow> error + string" where
  "output_without_session orders merchant_id uuid4 =
     (case amazon_envelope orders merchant_id uuid4 of
        Inl e \<Rightarrow> Inl e
      | Inr env \<Rightarrow> serialize_xml (erase_session env))"

text \<open>The erasure, on the result of a call that may have raised.\<close>

definition erased :: "error + xml \<Rightarrow> error + xml" where
  "erased r = (case r of Inl e \<Rightarrow> Inl e | Inr x \<Rightarrow> Inr (erase_session x))"

section \<open>\<open>parse_txt_to_objects\<close>\<close>

subsection \<open>Reading the file as text\<close>




subsection \<open>\<open>csv.reader\<close>\<close>













subsection \<open>\<open>csv.DictReader\<close>\<close>




subsection \<open>The loop\<close>



subsection \<open>Tab-delimited tables\<close>






text \<open>The value of the column named \<open>k\<close> in a data row: the last such column.\<close>

definition column :: "string list \<Rightarrow> string \<Rightarrow> string list \<Rightarrow> string option" where
  "column header k row = map_of (rev (zip header row)) k"









section \<open>Writing the reports: \<open>save_xml_to_out_directory\<close> and the loop of \<open>run\<close>\<close>














section \<open>Properties of the grouping loops\<close>

lemma first_seen_set: "set (first_seen xs) = set xs"
  by (induction xs) auto

lemma first_seen_distinct: "distinct (first_seen xs)"
  by (induction xs) (auto simp: first_seen_set)

lemma remdups_snoc: "remdups (ys @ [x]) = filter (\<lambda>y. y \<noteq> x) (remdups ys) @ [x]"
  by (induction ys) auto

lemma first_seen_remdups: "first_seen xs = rev (remdups (rev xs))"
proof (induction xs)
  case Nil
  show ?case by simp
next
  case (Cons x xs)
  have "remdups (rev xs @ [x]) = filter (\<lambda>y. y \<noteq> x) (remdups (rev xs)) @ [x]"
    by (rule remdups_snoc)
  with Cons show ?case
    by (simp add: rev_filter)
qed

lemma keys_append_at: "map fst (append_at d k x) = map fst d"
  by (induction d) (auto simp: append_at_def)

lemma group_loop_keys:
  "map fst (group_loop key acc xs) =
     map fst acc @ filter (\<lambda>k. k \<notin> set (map fst acc)) (first_seen (map key xs))"
proof (induction xs arbitrary: acc)
  case Nil
  show ?case by simp
next
  case (Cons x xs)
  show ?case
  proof (cases "contains acc (key x)")
    case True
    then have "filter (\<lambda>k. k \<notin> set (map fst acc)) (filter (\<lambda>y. y \<noteq> key x) (first_seen (map key xs)))
       = filter (\<lambda>k. k \<notin> set (map fst acc)) (first_seen (map key xs))"
      by (auto simp: contains_def intro!: filter_cong)
    with True show ?thesis
      by (simp add: Cons.IH keys_append_at contains_def)
  next
    case False
    have "filter (\<lambda>k. k \<notin> set (map fst acc) \<and> k \<noteq> key x) (first_seen (map key xs))
       = filter (\<lambda>k. k \<notin> set (map fst acc)) (filter (\<lambda>y. y \<noteq> key x) (first_seen (map key xs)))"
      by (auto intro!: filter_cong)
    with False show ?thesis
      by (simp add: Cons.IH keys_append_at contains_def setitem_new_def)
  qed
qed

lemma group_loop_distinct:
  "distinct (map fst acc) \<Longrightarrow> distinct (map fst (group_loop key acc xs))"
  by (auto simp: group_loop_keys first_seen_distinct)

lemma map_of_append_at:
  "map_of (append_at d k x) k' =
     (if k' = k then map_option (\<lambda>xs. xs @ [x]) (map_of d k) else map_of d k')"
  by (induction d) (auto simp: append_at_def)

lemma contains_map_of: "contains d k \<longleftrightarrow> map_of d k \<noteq> None"
  by (simp add: contains_def map_of_eq_None_iff)

lemma values_at_append_at:
  "values_at (append_at d k x) k' =
     (if k' = k \<and> contains d k then values_at d k @ [x] else values_at d k')"
  by (cases "map_of d k") (auto simp: values_at_def map_of_append_at contains_map_of)

lemma values_at_setitem_new:
  "values_at (setitem_new d k []) k' = values_at d k'"
  by (induction d) (auto simp: setitem_new_def values_at_def)

lemma contains_setitem_new: "contains (setitem_new d k v) k"
  by (simp add: contains_def setitem_new_def)

lemma values_at_absent: "\<not> contains d k \<Longrightarrow> values_at d k = []"
  by (induction d) (auto simp: contains_def values_at_def)

lemma group_loop_values:
  "values_at (group_loop key acc xs) k = values_at acc k @ filter (\<lambda>x. key x = k) xs"
proof (induction xs arbitrary: acc)
  case Nil
  show ?case by simp
next
  case (Cons x xs)
  show ?case
    by (auto simp: Cons.IH values_at_append_at values_at_setitem_new contains_setitem_new
        values_at_absent)
qed

lemma values_at_member:
  "distinct (map fst d) \<Longrightarrow> (k, ls) \<in> set d \<Longrightarrow> values_at d k = ls"
  by (simp add: values_at_def)

lemma lines_total_append_at_absent:
  "\<not> contains d k \<Longrightarrow> lines_total (append_at d k x) = lines_total d"
  by (induction d) (auto simp: lines_total_def append_at_def contains_def)

lemma lines_total_append_at:
  "distinct (map fst d) \<Longrightarrow> contains d k \<Longrightarrow> lines_total (append_at d k x) = Suc (lines_total d)"
proof (induction d)
  case Nil
  then show ?case by (simp add: contains_def)
next
  case (Cons a d)
  obtain k' ls where a: "a = (k', ls)" by (cases a)
  show ?case
  proof (cases "k' = k")
    case True
    with Cons.prems a have "\<not> contains d k" by (auto simp: contains_def)
    then have "lines_total (append_at d k x) = lines_total d"
      by (rule lines_total_append_at_absent)
    with True a show ?thesis
      by (simp add: lines_total_def append_at_def)
  next
    case False
    with Cons.prems a have "contains d k" "distinct (map fst d)" by (auto simp: contains_def)
    then have "lines_total (append_at d k x) = Suc (lines_total d)"
      by (rule Cons.IH[rotated])
    with False a show ?thesis
      by (simp add: lines_total_def append_at_def)
  qed
qed

lemma lines_total_setitem_new: "lines_total (setitem_new d k []) = lines_total d"
  by (simp add: lines_total_def setitem_new_def)

lemma group_loop_total:
  "distinct (map fst acc) \<Longrightarrow> lines_total (group_loop key acc xs) = lines_total acc + length xs"
proof (induction xs arbitrary: acc)
  case Nil
  show ?case by simp
next
  case (Cons x xs)
  let ?acc1 = "if \<not> contains acc (key x) then setitem_new acc (key x) [] else acc"
  have d1: "distinct (map fst ?acc1)"
    using Cons.prems by (auto simp: setitem_new_def contains_def)
  have c1: "contains ?acc1 (key x)"
    by (simp add: contains_setitem_new)
  have "lines_total (append_at ?acc1 (key x) x) = Suc (lines_total ?acc1)"
    using d1 c1 by (rule lines_total_append_at)
  moreover have "lines_total ?acc1 = lines_total acc"
    by (simp add: lines_total_setitem_new)
  moreover have "distinct (map fst (append_at ?acc1 (key x) x))"
    using d1 by (simp only: keys_append_at)
  ultimately show ?case
    using Cons.IH[of "append_at ?acc1 (key x) x"] by simp
qed

lemma field_Some: "r k = Some v \<Longrightarrow> field k r = v"
  by (simp add: field_def get_def)

lemma field_eq_iff: "r k \<noteq> None \<Longrightarrow> field k r = v \<longleftrightarrow> r k = Some v"
  by (auto simp: field_def get_def)

lemma collect_per_channel_loop:
  "\<forall>r \<in> set data. r ''sales-channel'' \<noteq> None \<Longrightarrow>
   collect_per_channel cpc data = Inr (group_loop (field ''sales-channel'') cpc data)"
proof (induction data arbitrary: cpc)
  case Nil
  show ?case by simp
next
  case (Cons item data)
  from Cons.prems obtain v where v: "item ''sales-channel'' = Some v" by auto
  from Cons.prems have "\<forall>r \<in> set data. r ''sales-channel'' \<noteq> None" by simp
  note ih = Cons.IH[OF this]
  have f: "field ''sales-channel'' item = v"
    using v by (simp add: field_def get_def)
  show ?case
    by (simp add: getitem_def v f ih Let_def)
qed

lemma group_order_lines_loop:
  "\<forall>r \<in> set orders. r ''order-id'' \<noteq> None \<Longrightarrow>
   group_order_lines og orders = Inr (group_loop (field ''order-id'') og orders)"
proof (induction orders arbitrary: og)
  case Nil
  show ?case by simp
next
  case (Cons order orders)
  from Cons.prems obtain v where v: "order ''order-id'' = Some v" by auto
  from Cons.prems have "\<forall>r \<in> set orders. r ''order-id'' \<noteq> None" by simp
  note ih = Cons.IH[OF this]
  have f: "field ''order-id'' order = v"
    using v by (simp add: field_def get_def)
  show ?case
    by (simp add: getitem_def v f ih Let_def)
qed

lemma group_channels_loop:
  "\<forall>(c, os) \<in> set cpc. \<forall>r \<in> set os. r ''order-id'' \<noteq> None \<Longrightarrow>
   group_channels cpc = Inr (map (\<lambda>(c, os). (c, group_loop (field ''order-id'') [] os)) cpc)"
proof (induction cpc)
  case Nil
  show ?case by simp
next
  case (Cons a cpc)
  obtain c os where a: "a = (c, os)" by (cases a)
  from Cons.prems a have "\<forall>r \<in> set os. r ''order-id'' \<noteq> None" by simp
  note h = group_order_lines_loop[OF this]
  from Cons.prems have "\<forall>(c, os) \<in> set cpc. \<forall>r \<in> set os. r ''order-id'' \<noteq> None" by simp
  note ih = Cons.IH[OF this]
  show ?case by (simp add: a h ih)
qed

lemma group_loop_member:
  assumes "(k, ls) \<in> set (group_loop key [] xs)"
  shows "ls = filter (\<lambda>x. key x = k) xs"
proof -
  have "distinct (map fst (group_loop key [] xs))"
    by (rule group_loop_distinct) simp
  from values_at_member[OF this assms] have "values_at (group_loop key [] xs) k = ls" .
  then show ?thesis
    by (simp add: group_loop_values) (simp add: values_at_def)
qed

lemma group_loop_key_set:
  "set (map fst (group_loop key [] xs)) = key ` set xs"
  by (simp add: group_loop_keys first_seen_set)

lemma slots_Cons: "slots ((c, og) # g) = map (\<lambda>(oid, ls). ((c, oid), ls)) og @ slots g"
  by (simp add: slots_def)

lemma total_lines_Cons: "total_lines ((c, og) # g) = lines_total og + total_lines g"
  by (simp add: total_lines_def slots_Cons lines_total_def comp_def case_prod_unfold)

lemma total_lines_map:
  "total_lines (map (\<lambda>(c, os). (c, group_loop key [] os)) cpc) = lines_total cpc"
proof (induction cpc)
  case Nil
  show ?case by (simp add: total_lines_def slots_def lines_total_def)
next
  case (Cons a cpc)
  obtain c os where a: "a = (c, os)" by (cases a)
  have "lines_total (group_loop key [] os) = length os"
    using group_loop_total[of "[]" key os] by (simp add: lines_total_def)
  with Cons.IH show ?case
    by (simp add: a total_lines_Cons) (simp add: lines_total_def)
qed

lemma slots_member:
  "((c, oid), ls) \<in> set (slots g) \<longleftrightarrow> (\<exists>og. (c, og) \<in> set g \<and> (oid, ls) \<in> set og)"
  by (induction g) (auto simp: slots_def)

lemma slots_distinct:
  "distinct (map fst g) \<Longrightarrow> \<forall>(c, og) \<in> set g. distinct (map fst og) \<Longrightarrow>
   distinct (map fst (slots g))"
proof (induction g)
  case Nil
  show ?case by (simp add: slots_def)
next
  case (Cons a g)
  obtain c og where a: "a = (c, og)" by (cases a)
  have m: "map fst (map (\<lambda>(oid, ls). ((c, oid), ls)) og) = map (Pair c) (map fst og)"
    by (induction og) auto
  from Cons.prems a have d: "distinct (map fst og)" by simp
  have d1: "distinct (map (Pair c) (map fst og))"
    using d by (simp add: distinct_map inj_on_def)
  from Cons.prems have d2: "distinct (map fst (slots g))"
    by (intro Cons.IH) auto
  have dis: "set (map (Pair c) (map fst og)) \<inter> set (map fst (slots g)) = {}"
  proof (rule ccontr)
    assume "\<not> ?thesis"
    then obtain oid where "(c, oid) \<in> set (map fst (slots g))" by auto
    then obtain ls where "((c, oid), ls) \<in> set (slots g)" by auto
    then obtain og' where "(c, og') \<in> set g" by (auto simp: slots_member)
    then have "c \<in> set (map fst g)" by force
    with Cons.prems a show False by simp
  qed
  have "map fst (slots (a # g)) = map (Pair c) (map fst og) @ map fst (slots g)"
    by (simp only: a slots_Cons map_append m)
  with d1 d2 dis show ?case
    by (simp only: distinct_append)
qed


lemma grouped_loop:
  assumes "\<forall>r \<in> set data. r ''sales-channel'' \<noteq> None \<and> r ''order-id'' \<noteq> None"
  shows "grouped data =
     Inr (map (\<lambda>(c, os). (c, group_loop (field ''order-id'') [] os))
            (group_loop (field ''sales-channel'') [] data))"
proof -
  from assms have c: "collect_per_channel [] data = Inr (group_loop (field ''sales-channel'') [] data)"
    by (intro collect_per_channel_loop) simp
  have "r ''order-id'' \<noteq> None"
    if os: "(c, os) \<in> set (group_loop (field ''sales-channel'') [] data)" and r: "r \<in> set os"
    for c os r
  proof -
    from os have "os = filter (\<lambda>x. field ''sales-channel'' x = c) data"
      by (rule group_loop_member)
    with r have "r \<in> set data" by simp
    with assms show ?thesis by blast
  qed
  then have "\<forall>(c, os) \<in> set (group_loop (field ''sales-channel'') [] data).
          \<forall>r \<in> set os. r ''order-id'' \<noteq> None"
    by blast
  from group_channels_loop[OF this] c show ?thesis
    by (simp add: grouped_def)
qed

lemma grouped_slots:
  assumes "\<forall>r \<in> set data. r ''sales-channel'' \<noteq> None \<and> r ''order-id'' \<noteq> None"
  shows "\<exists>g. grouped data = Inr g
           \<and> total_lines g = length data
           \<and> distinct (map fst (slots g))
           \<and> (\<forall>((c, oid), ls) \<in> set (slots g).
                 ls = filter (\<lambda>r. r ''sales-channel'' = Some c \<and> r ''order-id'' = Some oid) data)
           \<and> (\<forall>r \<in> set data. \<exists>c oid ls.
                 r ''sales-channel'' = Some c \<and> r ''order-id'' = Some oid
                 \<and> ((c, oid), ls) \<in> set (slots g) \<and> r \<in> set ls)"
proof -
  let ?ch = "field ''sales-channel''" and ?oi = "field ''order-id''"
  let ?cpc = "group_loop ?ch [] data"
  let ?g = "map (\<lambda>(c, os). (c, group_loop ?oi [] os)) ?cpc"
  have g: "grouped data = Inr ?g"
    using assms by (rule grouped_loop)
  have total: "total_lines ?g = length data"
    using group_loop_total[of "[]" ?ch data] by (simp add: total_lines_map lines_total_def)
  have keys: "map fst ?g = map fst ?cpc"
    by (induction ?cpc) auto
  have dist: "distinct (map fst (slots ?g))"
  proof (rule slots_distinct)
    show "distinct (map fst ?g)"
      unfolding keys by (rule group_loop_distinct) simp
    show "\<forall>(c, og) \<in> set ?g. distinct (map fst og)"
      by (auto intro!: group_loop_distinct)
  qed
  have slot: "ls = filter (\<lambda>r. r ''sales-channel'' = Some c \<and> r ''order-id'' = Some oid) data"
    if "((c, oid), ls) \<in> set (slots ?g)" for c oid ls
  proof -
    from that obtain os where os: "(c, os) \<in> set ?cpc" and ls: "(oid, ls) \<in> set (group_loop ?oi [] os)"
      by (auto simp: slots_member)
    from os have 1: "os = filter (\<lambda>r. ?ch r = c) data" by (rule group_loop_member)
    from ls have 2: "ls = filter (\<lambda>r. ?oi r = oid) os" by (rule group_loop_member)
    have "ls = filter (\<lambda>r. ?ch r = c \<and> ?oi r = oid) data"
      unfolding 2 1 by simp
    also have "\<dots> = filter (\<lambda>r. r ''sales-channel'' = Some c \<and> r ''order-id'' = Some oid) data"
      using assms by (intro filter_cong) (auto simp: field_eq_iff)
    finally show ?thesis .
  qed
  have own: "\<exists>c oid ls. r ''sales-channel'' = Some c \<and> r ''order-id'' = Some oid
                 \<and> ((c, oid), ls) \<in> set (slots ?g) \<and> r \<in> set ls"
    if r: "r \<in> set data" for r
  proof -
    from assms r obtain c oid where c: "r ''sales-channel'' = Some c" and o: "r ''order-id'' = Some oid"
      by auto
    have fc: "?ch r = c" and fo: "?oi r = oid"
      using c o by (simp_all add: field_def get_def)
    from r fc have "c \<in> set (map fst ?cpc)"
      unfolding group_loop_key_set by auto
    then obtain os where os: "(c, os) \<in> set ?cpc" by auto
    then have 1: "os = filter (\<lambda>r. ?ch r = c) data" by (rule group_loop_member)
    with r fc have ros: "r \<in> set os" by simp
    with fo have "oid \<in> set (map fst (group_loop ?oi [] os))"
      unfolding group_loop_key_set by auto
    then obtain ls where ls: "(oid, ls) \<in> set (group_loop ?oi [] os)" by auto
    then have 2: "ls = filter (\<lambda>r. ?oi r = oid) os" by (rule group_loop_member)
    with ros fo have "r \<in> set ls" by simp
    moreover from os ls have "((c, oid), ls) \<in> set (slots ?g)"
      by (force simp: slots_member)
    ultimately show ?thesis using c o by blast
  qed
  from slot have slot': "\<forall>((c, oid), ls) \<in> set (slots ?g).
      ls = filter (\<lambda>r. r ''sales-channel'' = Some c \<and> r ''order-id'' = Some oid) data"
    by blast
  from own have own': "\<forall>r \<in> set data. \<exists>c oid ls.
      r ''sales-channel'' = Some c \<and> r ''order-id'' = Some oid
      \<and> ((c, oid), ls) \<in> set (slots ?g) \<and> r \<in> set ls"
    by blast
  from g total dist slot' own' show ?thesis
    by blast
qed

text \<open>
  C1. Grouping partitions the records exactly. For records that carry both grouping
  fields, the grouped structure exists, its slots hold as many lines as there are input
  records, no (channel, order id) pair has two slots, the slot of a pair holds exactly
  the input records with that sales-channel and order-id value (in input order, with
  their multiplicity), and every input record has the slot of its own two values.
\<close>

theorem grouping_partitions_records:
  assumes "\<forall>r \<in> set data. r ''sales-channel'' \<noteq> None \<and> r ''order-id'' \<noteq> None"
  shows "\<exists>g. grouped data = Inr g
           \<and> total_lines g = length data
           \<and> distinct (map fst (slots g))
           \<and> (\<forall>((c, oid), ls) \<in> set (slots g).
                 ls = filter (\<lambda>r. r ''sales-channel'' = Some c \<and> r ''order-id'' = Some oid) data)
           \<and> (\<forall>r \<in> set data. \<exists>c oid ls.
                 r ''sales-channel'' = Some c \<and> r ''order-id'' = Some oid
                 \<and> ((c, oid), ls) \<in> set (slots g) \<and> r \<in> set ls)"
  using assms by (rule grouped_slots)

theorem grouping_partitions_records_witness:
  "list_all (\<lambda>r. r ''sales-channel'' \<noteq> None \<and> r ''order-id'' \<noteq> None) [rec_a1, rec_b1, rec_a2]
   \<and> grouped [rec_a1, rec_b1, rec_a2] =
       Inr [(Str ''Amazon.com'', [(Str ''111'', [rec_a1, rec_a2])]),
            (Str ''Amazon.ca'', [(Str ''111'', [rec_b1])])]
   \<and> (\<exists>g. grouped [rec_a1, rec_b1, rec_a2] = Inr g \<and> total_lines g = 3)"
proof -
  have h: "\<forall>r \<in> set [rec_a1, rec_b1, rec_a2]. r ''sales-channel'' \<noteq> None \<and> r ''order-id'' \<noteq> None"
    by (simp add: rec_a1_def rec_b1_def rec_a2_def)
  have e: "grouped [rec_a1, rec_b1, rec_a2] =
       Inr [(Str ''Amazon.com'', [(Str ''111'', [rec_a1, rec_a2])]),
            (Str ''Amazon.ca'', [(Str ''111'', [rec_b1])])]"
    by (simp add: grouped_def getitem_def contains_def setitem_new_def append_at_def
        rec_a1_def rec_b1_def rec_a2_def)
  from grouping_partitions_records[OF h] obtain g where
    "grouped [rec_a1, rec_b1, rec_a2] = Inr g" "total_lines g = length [rec_a1, rec_b1, rec_a2]"
    by blast
  with h e show ?thesis by simp
qed

section \<open>Properties of the envelope builder\<close>

lemma sequence_Inr: "sequence rs = Inr xs \<longleftrightarrow> rs = map Inr xs"
proof (induction rs arbitrary: xs)
  case Nil
  show ?case by auto
next
  case (Cons r rs)
  show ?case
  proof (cases r)
    case (Inl e)
    then show ?thesis by (cases xs) auto
  next
    case r: (Inr x)
    show ?thesis
    proof (cases "sequence rs")
      case (Inl e)
      have "rs \<noteq> map Inr ys" for ys
        using Cons.IH[of ys] Inl by simp
      with r Inl show ?thesis by (cases xs) auto
    next
      case (Inr ys)
      have "rs = map Inr ys"
        using Cons.IH[of ys] Inr by simp
      with r Inr show ?thesis by (cases xs) (auto simp: inj_map_eq_map)
    qed
  qed
qed

lemma node_InrE:
  assumes "node tg a subs = Inr e"
  obtains es where "subs = map Inr es" and "e = Element tg a NoneVal es"
  using assms by (cases "sequence subs") (auto simp: node_def sequence_Inr)

lemma leaf_Inr_simp: "leaf tg (Inr v) = Inr (Element tg [] v [])"
  by (simp add: leaf_def)

lemma leaf_InrD: "leaf tg v = Inr e \<Longrightarrow> \<exists>x. v = Inr x \<and> e = Element tg [] x []"
  by (cases v) (auto simp: leaf_def)

lemma getitem_InrD: "getitem d k = Inr v \<Longrightarrow> d k = Some v"
  by (cases "d k") (auto simp: getitem_def)

lemma message_InrD:
  assumes "message k oid lines sid = Inr m"
  shows "\<exists>first rest rep. lines = first # rest \<and> order_report oid first lines sid = Inr rep
        \<and> m = Element ''Message'' [] NoneVal [Element ''MessageID'' [] (Str (str_nat k)) [], rep]"
proof (cases lines)
  case Nil
  with assms show ?thesis by (simp add: message_def)
next
  case (Cons first rest)
  with assms have "node ''Message'' []
            [leaf ''MessageID'' (Inr (Str (str_nat k))),
             order_report oid first lines sid] = Inr m"
    by (simp add: message_def)
  then obtain es where
    es: "[leaf ''MessageID'' (Inr (Str (str_nat k))), order_report oid first lines sid] = map Inr es"
    and m: "m = Element ''Message'' [] NoneVal es" by (rule node_InrE)
  from es obtain a b where ab: "es = [a, b]"
    by (cases es; cases "tl es"; cases "tl (tl es)") auto
  from es ab have "a = Element ''MessageID'' [] (Str (str_nat k)) []"
    and "order_report oid first lines sid = Inr b"
    by (simp_all add: leaf_Inr_simp)
  with ab m Cons show ?thesis
    by simp
qed


lemma amazon_envelope_children:
  assumes "amazon_envelope orders mid u = Inr env"
  obtains msgs where
    "map (\<lambda>(k, oid, lines). message k oid lines (u k)) (enumerate 1 orders) = map Inr msgs"
    and "children env =
           Element ''Header'' [] NoneVal
             [Element ''DocumentVersion'' [] (Str ''1.01'') [],
              Element ''MerchantIdentifier'' [] (Str mid) []] #
           Element ''MessageType'' [] (Str ''OrderReport'') [] # msgs"
    and "tag env = ''AmazonEnvelope''"
proof -
  let ?f = "\<lambda>(k, oid, lines). message k oid lines (u k)"
  let ?hdr = "node ''Header'' []
           [leaf ''DocumentVersion'' (Inr (Str ''1.01'')),
            leaf ''MerchantIdentifier'' (Inr (Str mid))]"
  let ?mt = "leaf ''MessageType'' (Inr (Str ''OrderReport''))"
  from assms obtain es where
    es: "?hdr # ?mt # map ?f (enumerate 1 orders) = map Inr es"
    and env: "env = Element ''AmazonEnvelope''
       [(''xmlns:xsi'', Str ''http://www.w3.org/2001/XMLSchema-instance''),
        (''xsi:noNamespaceSchemaLocation'', Str ''amzn-envelope.xsd'')] NoneVal es"
    unfolding amazon_envelope_def by (rule node_InrE) simp
  from es obtain h m msgs where e3: "es = h # m # msgs"
    by (cases es; cases "tl es") auto
  have hv: "?hdr = Inr (Element ''Header'' [] NoneVal
             [Element ''DocumentVersion'' [] (Str ''1.01'') [],
              Element ''MerchantIdentifier'' [] (Str mid) []])"
    by (simp add: node_def leaf_Inr_simp)
  from es e3 have "?hdr = Inr h" and "?mt = Inr m" and "map ?f (enumerate 1 orders) = map Inr msgs"
    by simp_all
  with hv have "h = Element ''Header'' [] NoneVal
             [Element ''DocumentVersion'' [] (Str ''1.01'') [],
              Element ''MerchantIdentifier'' [] (Str mid) []]"
    and "m = Element ''MessageType'' [] (Str ''OrderReport'') []"
    and "map ?f (enumerate 1 orders) = map Inr msgs"
    by (simp_all add: leaf_Inr_simp)
  with env e3 that show ?thesis by simp
qed

lemma envelope_messages:
  assumes "amazon_envelope orders mid u = Inr env"
  shows "length (findall ''Message'' env) = length orders"
    and "i < length orders \<Longrightarrow>
         message (Suc i) (fst (orders ! i)) (snd (orders ! i)) (u (Suc i))
           = Inr (findall ''Message'' env ! i)"
proof -
  let ?f = "\<lambda>(k, oid, lines). message k oid lines (u k)"
  from assms obtain msgs where
    m: "map ?f (enumerate 1 orders) = map Inr msgs"
    and env: "children env =
           Element ''Header'' [] NoneVal
             [Element ''DocumentVersion'' [] (Str ''1.01'') [],
              Element ''MerchantIdentifier'' [] (Str mid) []] #
           Element ''MessageType'' [] (Str ''OrderReport'') [] # msgs"
    by (rule amazon_envelope_children)
  from m have "length (map ?f (enumerate 1 orders)) = length (map Inr msgs)" by simp
  then have len: "length msgs = length orders" by simp
  have nth: "message (Suc i) (fst (orders ! i)) (snd (orders ! i)) (u (Suc i)) = Inr (msgs ! i)"
    if "i < length orders" for i
  proof -
    from m have "map ?f (enumerate 1 orders) ! i = map Inr msgs ! i" by simp
    with that len show ?thesis
      by (simp add: nth_enumerate_eq case_prod_unfold)
  qed
  have tags: "tag x = ''Message''" if "x \<in> set msgs" for x
  proof -
    from that obtain i where i: "i < length msgs" and x: "x = msgs ! i"
      by (auto simp: in_set_conv_nth)
    from nth[of i] i len have "message (Suc i) (fst (orders ! i)) (snd (orders ! i)) (u (Suc i)) = Inr x"
      by (simp add: x)
    from message_InrD[OF this] show ?thesis by auto
  qed
  then have "filter (\<lambda>c. tag c = ''Message'') msgs = msgs"
    by (simp add: filter_id_conv)
  then have f: "findall ''Message'' env = msgs"
    by (simp add: findall_def env)
  from f len show "length (findall ''Message'' env) = length orders" by simp
  from f nth show "i < length orders \<Longrightarrow>
         message (Suc i) (fst (orders ! i)) (snd (orders ! i)) (u (Suc i))
           = Inr (findall ''Message'' env ! i)" by simp
qed


lemma Cons_eq_map_InrE:
  assumes "x # xs = map Inr es"
  obtains y ys where "es = y # ys" and "x = Inr y" and "xs = map Inr ys"
  using assms by (cases es) auto

lemma order_report_children:
  assumes "order_report oid order lines sid = Inr rep"
  obtains pd pp bill ful items where
    "order ''purchase-date'' = Some pd" and "order ''payments-date'' = Some pp"
    and "billing_data order = Inr bill" and "fulfillment_data order = Inr ful"
    and "map item_element lines = map Inr items"
    and "tag rep = ''OrderReport''"
    and "children rep =
       [Element ''AmazonOrderID'' [] oid [],
        Element ''AmazonSessionID'' [] (Str sid) [],
        Element ''OrderDate'' [] pd [],
        Element ''OrderPostedDate'' [] pp [],
        bill, ful,
        Element ''IsBusinessOrder'' [] (flag_text order ''is-business-order'') [],
        Element ''IsPrime'' [] (flag_text order ''is-prime'') [],
        Element ''IsPremiumOrder'' [] (flag_text order ''is-premium-order'') [],
        Element ''IsIba'' [] (flag_text order ''is-iba'') []] @ items"
proof -
  from assms obtain es where
    es: "leaf ''AmazonOrderID'' (Inr oid) #
         leaf ''AmazonSessionID'' (Inr (Str sid)) #
         leaf ''OrderDate'' (getitem order ''purchase-date'') #
         leaf ''OrderPostedDate'' (getitem order ''payments-date'') #
         billing_data order #
         fulfillment_data order #
         leaf ''IsBusinessOrder'' (Inr (flag_text order ''is-business-order'')) #
         leaf ''IsPrime'' (Inr (flag_text order ''is-prime'')) #
         leaf ''IsPremiumOrder'' (Inr (flag_text order ''is-premium-order'')) #
         leaf ''IsIba'' (Inr (flag_text order ''is-iba'')) #
         map item_element lines = map Inr es"
    and rep: "rep = Element ''OrderReport'' [] NoneVal es"
    unfolding order_report_def by (rule node_InrE) simp
  from es obtain e0 r0 where "es = e0 # r0" and a0: "leaf ''AmazonOrderID'' (Inr oid) = Inr e0"
    and es0: "leaf ''AmazonSessionID'' (Inr (Str sid)) #
         leaf ''OrderDate'' (getitem order ''purchase-date'') #
         leaf ''OrderPostedDate'' (getitem order ''payments-date'') #
         billing_data order #
         fulfillment_data order #
         leaf ''IsBusinessOrder'' (Inr (flag_text order ''is-business-order'')) #
         leaf ''IsPrime'' (Inr (flag_text order ''is-prime'')) #
         leaf ''IsPremiumOrder'' (Inr (flag_text order ''is-premium-order'')) #
         leaf ''IsIba'' (Inr (flag_text order ''is-iba'')) #
         map item_element lines = map Inr r0"
    by (rule Cons_eq_map_InrE)
  note c0 = \<open>es = e0 # r0\<close>
  from es0 obtain e1 r1 where c1: "r0 = e1 # r1" and a1: "leaf ''AmazonSessionID'' (Inr (Str sid)) = Inr e1"
    and es1: "leaf ''OrderDate'' (getitem order ''purchase-date'') #
         leaf ''OrderPostedDate'' (getitem order ''payments-date'') #
         billing_data order #
         fulfillment_data order #
         leaf ''IsBusinessOrder'' (Inr (flag_text order ''is-business-order'')) #
         leaf ''IsPrime'' (Inr (flag_text order ''is-prime'')) #
         leaf ''IsPremiumOrder'' (Inr (flag_text order ''is-premium-order'')) #
         leaf ''IsIba'' (Inr (flag_text order ''is-iba'')) #
         map item_element lines = map Inr r1"
    by (rule Cons_eq_map_InrE)
  from es1 obtain e2 r2 where c2: "r1 = e2 # r2"
    and a2: "leaf ''OrderDate'' (getitem order ''purchase-date'') = Inr e2"
    and es2: "leaf ''OrderPostedDate'' (getitem order ''payments-date'') #
         billing_data order #
         fulfillment_data order #
         leaf ''IsBusinessOrder'' (Inr (flag_text order ''is-business-order'')) #
         leaf ''IsPrime'' (Inr (flag_text order ''is-prime'')) #
         leaf ''IsPremiumOrder'' (Inr (flag_text order ''is-premium-order'')) #
         leaf ''IsIba'' (Inr (flag_text order ''is-iba'')) #
         map item_element lines = map Inr r2"
    by (rule Cons_eq_map_InrE)
  from es2 obtain e3 r3 where c3: "r2 = e3 # r3"
    and a3: "leaf ''OrderPostedDate'' (getitem order ''payments-date'') = Inr e3"
    and es3: "billing_data order #
         fulfillment_data order #
         leaf ''IsBusinessOrder'' (Inr (flag_text order ''is-business-order'')) #
         leaf ''IsPrime'' (Inr (flag_text order ''is-prime'')) #
         leaf ''IsPremiumOrder'' (Inr (flag_text order ''is-premium-order'')) #
         leaf ''IsIba'' (Inr (flag_text order ''is-iba'')) #
         map item_element lines = map Inr r3"
    by (rule Cons_eq_map_InrE)
  from es3 obtain bill r4 where c4: "r3 = bill # r4"
    and a4: "billing_data order = Inr bill"
    and es4: "fulfillment_data order #
         leaf ''IsBusinessOrder'' (Inr (flag_text order ''is-business-order'')) #
         leaf ''IsPrime'' (Inr (flag_text order ''is-prime'')) #
         leaf ''IsPremiumOrder'' (Inr (flag_text order ''is-premium-order'')) #
         leaf ''IsIba'' (Inr (flag_text order ''is-iba'')) #
         map item_element lines = map Inr r4"
    by (rule Cons_eq_map_InrE)
  from es4 obtain ful r5 where c5: "r4 = ful # r5"
    and a5: "fulfillment_data order = Inr ful"
    and es5: "leaf ''IsBusinessOrder'' (Inr (flag_text order ''is-business-order'')) #
         leaf ''IsPrime'' (Inr (flag_text order ''is-prime'')) #
         leaf ''IsPremiumOrder'' (Inr (flag_text order ''is-premium-order'')) #
         leaf ''IsIba'' (Inr (flag_text order ''is-iba'')) #
         map item_element lines = map Inr r5"
    by (rule Cons_eq_map_InrE)
  from es5 obtain e6 r6 where c6: "r5 = e6 # r6"
    and a6: "leaf ''IsBusinessOrder'' (Inr (flag_text order ''is-business-order'')) = Inr e6"
    and es6: "leaf ''IsPrime'' (Inr (flag_text order ''is-prime'')) #
         leaf ''IsPremiumOrder'' (Inr (flag_text order ''is-premium-order'')) #
         leaf ''IsIba'' (Inr (flag_text order ''is-iba'')) #
         map item_element lines = map Inr r6"
    by (rule Cons_eq_map_InrE)
  from es6 obtain e7 r7 where c7: "r6 = e7 # r7"
    and a7: "leaf ''IsPrime'' (Inr (flag_text order ''is-prime'')) = Inr e7"
    and es7: "leaf ''IsPremiumOrder'' (Inr (flag_text order ''is-premium-order'')) #
         leaf ''IsIba'' (Inr (flag_text order ''is-iba'')) #
         map item_element lines = map Inr r7"
    by (rule Cons_eq_map_InrE)
  from es7 obtain e8 r8 where c8: "r7 = e8 # r8"
    and a8: "leaf ''IsPremiumOrder'' (Inr (flag_text order ''is-premium-order'')) = Inr e8"
    and es8: "leaf ''IsIba'' (Inr (flag_text order ''is-iba'')) #
         map item_element lines = map Inr r8"
    by (rule Cons_eq_map_InrE)
  from es8 obtain e9 items where c9: "r8 = e9 # items"
    and a9: "leaf ''IsIba'' (Inr (flag_text order ''is-iba'')) = Inr e9"
    and its: "map item_element lines = map Inr items"
    by (rule Cons_eq_map_InrE)
  from a2 obtain pd where pd: "order ''purchase-date'' = Some pd" and e2: "e2 = Element ''OrderDate'' [] pd []"
    by (auto dest!: leaf_InrD getitem_InrD)
  from a3 obtain pp where pp: "order ''payments-date'' = Some pp"
    and e3: "e3 = Element ''OrderPostedDate'' [] pp []"
    by (auto dest!: leaf_InrD getitem_InrD)
  from a0 a1 a6 a7 a8 a9 have
    "e0 = Element ''AmazonOrderID'' [] oid []"
    "e1 = Element ''AmazonSessionID'' [] (Str sid) []"
    "e6 = Element ''IsBusinessOrder'' [] (flag_text order ''is-business-order'') []"
    "e7 = Element ''IsPrime'' [] (flag_text order ''is-prime'') []"
    "e8 = Element ''IsPremiumOrder'' [] (flag_text order ''is-premium-order'') []"
    "e9 = Element ''IsIba'' [] (flag_text order ''is-iba'') []"
    by (simp_all add: leaf_Inr_simp)
  with rep c0 c1 c2 c3 c4 c5 c6 c7 c8 c9 e2 e3 have
    "children rep =
       [Element ''AmazonOrderID'' [] oid [],
        Element ''AmazonSessionID'' [] (Str sid) [],
        Element ''OrderDate'' [] pd [],
        Element ''OrderPostedDate'' [] pp [],
        bill, ful,
        Element ''IsBusinessOrder'' [] (flag_text order ''is-business-order'') [],
        Element ''IsPrime'' [] (flag_text order ''is-prime'') [],
        Element ''IsPremiumOrder'' [] (flag_text order ''is-premium-order'') [],
        Element ''IsIba'' [] (flag_text order ''is-iba'') []] @ items"
    by simp
  moreover from rep have "tag rep = ''OrderReport''" by simp
  ultimately show ?thesis
    using that pd pp a4 a5 its by blast
qed

lemma billing_data_children:
  assumes "billing_data order = Inr bill"
  shows "tag bill = ''BillingData'' \<and>
    (\<exists>em bn addr. children bill =
       [Element ''BuyerEmailAddress'' [] em [], Element ''BuyerName'' [] bn [],
        Element ''BuyerPhoneNumber'' [] (get order ''buyer-phone-number'' (Str '''')) [], addr]
       \<and> tag addr = ''Address'')"
  using assms unfolding billing_data_def
  by (elim node_InrE) (auto simp: Cons_eq_map_conv leaf_Inr_simp dest!: leaf_InrD elim!: node_InrE)

lemma fulfillment_data_children:
  assumes "fulfillment_data order = Inr ful"
  shows "tag ful = ''FulfillmentData'' \<and>
    (\<exists>sl addr n a1 a2 a3 c s p cc. children ful =
       [Element ''FulfillmentMethod'' [] (Str ''Ship'') [],
        Element ''FulfillmentServiceLevel'' [] sl [], addr]
       \<and> tag addr = ''Address''
       \<and> children addr =
          [Element ''Name'' [] n [], Element ''AddressFieldOne'' [] a1 [],
           Element ''AddressFieldTwo'' [] a2 [], Element ''AddressFieldThree'' [] a3 [],
           Element ''City'' [] c [], Element ''StateOrRegion'' [] s [],
           Element ''PostalCode'' [] p [], Element ''CountryCode'' [] cc [],
           Element ''PhoneNumber'' [] (get order ''ship-phone-number'' (Str '''')) []])"
  using assms unfolding fulfillment_data_def
  by (elim node_InrE) (auto simp: Cons_eq_map_conv leaf_Inr_simp dest!: leaf_InrD elim!: node_InrE)

lemma amount_InrD:
  "amount item key = Inr e \<Longrightarrow>
     \<exists>v c. item key = Some v \<and> item ''currency'' = Some c
        \<and> e = Element ''Amount'' [(''currency'', c)] (Str (py_str v)) []"
  by (cases "item key"; cases "item ''currency''") (auto simp: amount_def getitem_def)

lemma component_InrD:
  "component item ty key = Inr e \<Longrightarrow>
     \<exists>v c. item key = Some v \<and> item ''currency'' = Some c
        \<and> e = Element ''Component'' [] NoneVal
              [Element ''Type'' [] (Str ty) [],
               Element ''Amount'' [(''currency'', c)] (Str (py_str v)) []]"
  unfolding component_def
  by (elim node_InrE) (auto simp: Cons_eq_map_conv leaf_Inr_simp dest!: amount_InrD)

lemma fee_InrD:
  "fee item ty key = Inr e \<Longrightarrow>
     \<exists>v c. item key = Some v \<and> item ''currency'' = Some c
        \<and> e = Element ''Fee'' [] NoneVal
              [Element ''Type'' [] (Str ty) [],
               Element ''Amount'' [(''currency'', c)] (Str (py_str v)) []]"
  unfolding fee_def
  by (elim node_InrE) (auto simp: Cons_eq_map_conv leaf_Inr_simp dest!: amount_InrD)

lemma item_element_tree:
  assumes "item_element item = Inr e"
  shows "\<exists>ic sku title q p s t st f c.
      item ''order-item-id'' = Some ic \<and> item ''sku'' = Some sku
    \<and> item ''product-name'' = Some title \<and> item ''quantity-purchased'' = Some q
    \<and> item ''item-price'' = Some p \<and> item ''shipping-price'' = Some s
    \<and> item ''item-tax'' = Some t \<and> item ''shipping-tax'' = Some st
    \<and> item ''payment-method-fee'' = Some f \<and> item ''currency'' = Some c
    \<and> e = Element ''Item'' [] NoneVal
        [Element ''AmazonOrderItemCode'' [] ic [],
         Element ''SKU'' [] sku [],
         Element ''Title'' [] title [],
         Element ''Quantity'' [] (Str (py_str q)) [],
         Element ''ProductTaxCode'' [] (Str ''A_GEN_STANDARD'') [],
         Element ''ItemPrice'' [] NoneVal
           [Element ''Component'' [] NoneVal
              [Element ''Type'' [] (Str ''Principal'') [],
               Element ''Amount'' [(''currency'', c)] (Str (py_str p)) []],
            Element ''Component'' [] NoneVal
              [Element ''Type'' [] (Str ''Shipping'') [],
               Element ''Amount'' [(''currency'', c)] (Str (py_str s)) []],
            Element ''Component'' [] NoneVal
              [Element ''Type'' [] (Str ''Tax'') [],
               Element ''Amount'' [(''currency'', c)] (Str (py_str t)) []],
            Element ''Component'' [] NoneVal
              [Element ''Type'' [] (Str ''ShippingTax'') [],
               Element ''Amount'' [(''currency'', c)] (Str (py_str st)) []]],
         Element ''ItemFees'' [] NoneVal
           [Element ''Fee'' [] NoneVal
              [Element ''Type'' [] (Str ''Commission'') [],
               Element ''Amount'' [(''currency'', c)] (Str (py_str f)) []]]]"
  using assms unfolding item_element_def
  by (elim node_InrE)
     (auto simp: Cons_eq_map_conv leaf_Inr_simp str_of_def getitem_def
           split: option.splits
           dest!: leaf_InrD component_InrD fee_InrD elim!: node_InrE)

lemma items_tagged:
  assumes "map item_element lines = map Inr items"
  shows "findall ''Item'' (Element tg a t (pre @ items)) = findall ''Item'' (Element tg a t pre) @ items"
proof -
  have "tag x = ''Item''" if "x \<in> set items" for x
  proof -
    from that obtain j where j: "j < length items" and x: "x = items ! j"
      by (auto simp: in_set_conv_nth)
    from assms have "length lines = length items"
      by (metis length_map)
    with assms j have "item_element (lines ! j) = Inr (items ! j)"
      by (metis nth_map)
    from item_element_tree[OF this] show ?thesis by (auto simp: x)
  qed
  then have "filter (\<lambda>c. tag c = ''Item'') items = items"
    by (simp add: filter_id_conv)
  then show ?thesis by (simp add: findall_def)
qed

lemma message_structure:
  assumes env: "amazon_envelope orders mid u = Inr env" and i: "i < length orders"
  obtains first rest rep pd pp bill ful items where
    "snd (orders ! i) = first # rest"
    and "findall ''Message'' env ! i =
           Element ''Message'' [] NoneVal [Element ''MessageID'' [] (Str (str_nat (Suc i))) [], rep]"
    and "tag rep = ''OrderReport''"
    and "children rep =
       [Element ''AmazonOrderID'' [] (fst (orders ! i)) [],
        Element ''AmazonSessionID'' [] (Str (u (Suc i))) [],
        Element ''OrderDate'' [] pd [],
        Element ''OrderPostedDate'' [] pp [],
        bill, ful,
        Element ''IsBusinessOrder'' [] (flag_text first ''is-business-order'') [],
        Element ''IsPrime'' [] (flag_text first ''is-prime'') [],
        Element ''IsPremiumOrder'' [] (flag_text first ''is-premium-order'') [],
        Element ''IsIba'' [] (flag_text first ''is-iba'') []] @ items"
    and "billing_data first = Inr bill" and "fulfillment_data first = Inr ful"
    and "map item_element (snd (orders ! i)) = map Inr items"
proof -
  from envelope_messages(2)[OF env i] have
    m: "message (Suc i) (fst (orders ! i)) (snd (orders ! i)) (u (Suc i))
          = Inr (findall ''Message'' env ! i)" .
  from message_InrD[OF m] obtain first rest rep where
    l: "snd (orders ! i) = first # rest"
    and r: "order_report (fst (orders ! i)) first (snd (orders ! i)) (u (Suc i)) = Inr rep"
    and e: "findall ''Message'' env ! i =
           Element ''Message'' [] NoneVal [Element ''MessageID'' [] (Str (str_nat (Suc i))) [], rep]"
    by blast
  from r obtain pd pp bill ful items where
    "billing_data first = Inr bill" "fulfillment_data first = Inr ful"
    "map item_element (snd (orders ! i)) = map Inr items"
    "tag rep = ''OrderReport''"
    "children rep =
       [Element ''AmazonOrderID'' [] (fst (orders ! i)) [],
        Element ''AmazonSessionID'' [] (Str (u (Suc i))) [],
        Element ''OrderDate'' [] pd [],
        Element ''OrderPostedDate'' [] pp [],
        bill, ful,
        Element ''IsBusinessOrder'' [] (flag_text first ''is-business-order'') [],
        Element ''IsPrime'' [] (flag_text first ''is-prime'') [],
        Element ''IsPremiumOrder'' [] (flag_text first ''is-premium-order'') [],
        Element ''IsIba'' [] (flag_text first ''is-iba'') []] @ items"
    by (rule order_report_children)
  with l e that show ?thesis by blast
qed

lemma message_id_text:
  assumes env: "amazon_envelope orders mid u = Inr env" and i: "i < length orders"
  shows "findtext [''MessageID''] (findall ''Message'' env ! i) = Some (Str (str_nat (Suc i)))"
    and "findtext [''OrderReport'', ''AmazonOrderID''] (findall ''Message'' env ! i)
           = Some (fst (orders ! i))"
proof -
  from env i obtain first rest rep pd pp bill ful items where
    e: "findall ''Message'' env ! i =
           Element ''Message'' [] NoneVal [Element ''MessageID'' [] (Str (str_nat (Suc i))) [], rep]"
    and t: "tag rep = ''OrderReport''"
    and c: "children rep =
       [Element ''AmazonOrderID'' [] (fst (orders ! i)) [],
        Element ''AmazonSessionID'' [] (Str (u (Suc i))) [],
        Element ''OrderDate'' [] pd [],
        Element ''OrderPostedDate'' [] pp [],
        bill, ful,
        Element ''IsBusinessOrder'' [] (flag_text first ''is-business-order'') [],
        Element ''IsPrime'' [] (flag_text first ''is-prime'') [],
        Element ''IsPremiumOrder'' [] (flag_text first ''is-premium-order'') [],
        Element ''IsIba'' [] (flag_text first ''is-iba'') []] @ items"
    by (rule message_structure)
  show "findtext [''MessageID''] (findall ''Message'' env ! i) = Some (Str (str_nat (Suc i)))"
    by (simp add: findtext_def e)
  show "findtext [''OrderReport'', ''AmazonOrderID''] (findall ''Message'' env ! i)
           = Some (fst (orders ! i))"
    by (simp add: findtext_def e t c)
qed

lemma collect_per_channel_InrD:
  "collect_per_channel cpc data = Inr res \<Longrightarrow> \<forall>r \<in> set data. r ''sales-channel'' \<noteq> None"
proof (induction data arbitrary: cpc)
  case Nil
  show ?case by simp
next
  case (Cons item data)
  show ?case
  proof (cases "item ''sales-channel''")
    case None
    with Cons.prems show ?thesis by (simp add: getitem_def)
  next
    case (Some v)
    with Cons.prems Cons.IH show ?thesis
      by (auto simp: getitem_def Let_def)
  qed
qed

lemma group_order_lines_InrD:
  "group_order_lines og orders = Inr res \<Longrightarrow> \<forall>r \<in> set orders. r ''order-id'' \<noteq> None"
proof (induction orders arbitrary: og)
  case Nil
  show ?case by simp
next
  case (Cons order orders)
  show ?case
  proof (cases "order ''order-id''")
    case None
    with Cons.prems show ?thesis by (simp add: getitem_def)
  next
    case (Some v)
    with Cons.prems Cons.IH show ?thesis
      by (auto simp: getitem_def Let_def)
  qed
qed

text \<open>
  C2. Messages are numbered from 1 in the insertion order of the batch, which is the
  order of first appearance. For the channel dictionary of a record sequence, the
  channels come in the order in which they first appear; a channel holds its records
  in input order; and in the envelope generated for a channel, the \<open>MessageID\<close> texts
  are the decimal strings of 1, 2, ... (of \<open>i + 1\<close> at position \<open>i\<close> from 0) and the \<open>AmazonOrderID\<close> texts are the order ids
  of the channel's records in the order of their first appearance.
\<close>

theorem message_numbering_first_seen:
  assumes "collect_per_channel [] data = Inr cpc"
    and "(channel_name, recs) \<in> set cpc"
    and "group_order_lines [] recs = Inr orders"
    and "amazon_envelope orders merchant_id uuid4 = Inr env"
  shows "map fst cpc = first_seen (map (field ''sales-channel'') data)
       \<and> recs = filter (\<lambda>r. field ''sales-channel'' r = channel_name) data
       \<and> map fst orders = first_seen (map (field ''order-id'') recs)
       \<and> map (findtext [''MessageID'']) (findall ''Message'' env)
           = map (\<lambda>i. Some (Str (str_nat (Suc i)))) [0..<length orders]
       \<and> map (findtext [''OrderReport'', ''AmazonOrderID'']) (findall ''Message'' env)
           = map Some (first_seen (map (field ''order-id'') recs))"
proof -
  from assms(1) have "collect_per_channel [] data = Inr (group_loop (field ''sales-channel'') [] data)"
    by (intro collect_per_channel_loop collect_per_channel_InrD)
  with assms(1) have cpc: "cpc = group_loop (field ''sales-channel'') [] data" by simp
  from assms(3) have "group_order_lines [] recs = Inr (group_loop (field ''order-id'') [] recs)"
    by (intro group_order_lines_loop group_order_lines_InrD)
  with assms(3) have orders: "orders = group_loop (field ''order-id'') [] recs" by simp
  have 1: "map fst cpc = first_seen (map (field ''sales-channel'') data)"
    by (simp add: cpc group_loop_keys)
  have 2: "recs = filter (\<lambda>r. field ''sales-channel'' r = channel_name) data"
    using assms(2) unfolding cpc by (rule group_loop_member)
  have 3: "map fst orders = first_seen (map (field ''order-id'') recs)"
    by (simp add: orders group_loop_keys)
  note len = envelope_messages(1)[OF assms(4)]
  have 4: "map (findtext [''MessageID'']) (findall ''Message'' env)
           = map (\<lambda>i. Some (Str (str_nat (Suc i)))) [0..<length orders]"
  proof (rule nth_equalityI)
    show "length (map (findtext [''MessageID'']) (findall ''Message'' env))
        = length (map (\<lambda>i. Some (Str (str_nat (Suc i)))) [0..<length orders])"
      by (simp add: len)
  next
    fix i assume "i < length (map (findtext [''MessageID'']) (findall ''Message'' env))"
    then have i: "i < length orders" by (simp add: len)
    then show "map (findtext [''MessageID'']) (findall ''Message'' env) ! i
        = map (\<lambda>i. Some (Str (str_nat (Suc i)))) [0..<length orders] ! i"
      by (simp add: len message_id_text(1)[OF assms(4)])
  qed
  have "map (findtext [''OrderReport'', ''AmazonOrderID'']) (findall ''Message'' env)
           = map Some (map fst orders)"
  proof (rule nth_equalityI)
    show "length (map (findtext [''OrderReport'', ''AmazonOrderID'']) (findall ''Message'' env))
        = length (map Some (map fst orders))"
      by (simp add: len)
  next
    fix i assume "i < length (map (findtext [''OrderReport'', ''AmazonOrderID''])
       (findall ''Message'' env))"
    then have i: "i < length orders" by (simp add: len)
    then show "map (findtext [''OrderReport'', ''AmazonOrderID'']) (findall ''Message'' env) ! i
        = map Some (map fst orders) ! i"
      by (simp add: len message_id_text(2)[OF assms(4)])
  qed
  with 3 have 5: "map (findtext [''OrderReport'', ''AmazonOrderID'']) (findall ''Message'' env)
           = map Some (first_seen (map (field ''order-id'') recs))"
    by simp
  from 1 2 3 4 5 show ?thesis by blast
qed

lemma full_line_fields:
    "full_line channel oid item_id ''sales-channel'' = Some (Str channel)"
    "full_line channel oid item_id ''order-id'' = Some (Str oid)"
    "full_line channel oid item_id ''order-item-id'' = Some (Str item_id)"
    "full_line channel oid item_id ''purchase-date'' = Some (Str ''2024-12-25T10:00:00'')"
    "full_line channel oid item_id ''payments-date'' = Some (Str ''2024-12-25T10:05:00'')"
    "full_line channel oid item_id ''buyer-email'' = Some (Str ''a@example.com'')"
    "full_line channel oid item_id ''buyer-name'' = Some (Str ''Ann'')"
    "full_line channel oid item_id ''bill-name'' = Some (Str ''Ann'')"
    "full_line channel oid item_id ''bill-address-1'' = Some (Str ''1 Main St'')"
    "full_line channel oid item_id ''bill-address-2'' = Some (Str '''')"
    "full_line channel oid item_id ''bill-address-3'' = Some (Str '''')"
    "full_line channel oid item_id ''bill-city'' = Some (Str ''Springfield'')"
    "full_line channel oid item_id ''bill-state'' = Some (Str ''IL'')"
    "full_line channel oid item_id ''bill-postal-code'' = Some (Str ''62701'')"
    "full_line channel oid item_id ''bill-country'' = Some (Str ''US'')"
    "full_line channel oid item_id ''ship-service-level'' = Some (Str ''Standard'')"
    "full_line channel oid item_id ''recipient-name'' = Some (Str ''Ann'')"
    "full_line channel oid item_id ''ship-address-1'' = Some (Str ''1 Main St'')"
    "full_line channel oid item_id ''ship-address-2'' = Some (Str '''')"
    "full_line channel oid item_id ''ship-address-3'' = Some (Str '''')"
    "full_line channel oid item_id ''ship-city'' = Some (Str ''Springfield'')"
    "full_line channel oid item_id ''ship-state'' = Some (Str ''IL'')"
    "full_line channel oid item_id ''ship-postal-code'' = Some (Str ''62701'')"
    "full_line channel oid item_id ''ship-country'' = Some (Str ''US'')"
    "full_line channel oid item_id ''sku'' = Some (Str ''SKU-1'')"
    "full_line channel oid item_id ''product-name'' = Some (Str ''Widget'')"
    "full_line channel oid item_id ''quantity-purchased'' = Some (Str ''2'')"
    "full_line channel oid item_id ''currency'' = Some (Str ''USD'')"
    "full_line channel oid item_id ''item-price'' = Some (Str ''19.99'')"
    "full_line channel oid item_id ''shipping-price'' = Some (Str ''4.50'')"
    "full_line channel oid item_id ''item-tax'' = Some (Str ''1.60'')"
    "full_line channel oid item_id ''shipping-tax'' = Some (Str ''0.36'')"
    "full_line channel oid item_id ''payment-method-fee'' = Some (Str ''0.00'')"
    "full_line channel oid item_id ''is-buyer-requested-cancellation'' = Some (Str ''false'')"
  by (simp_all add: full_line_def)

lemma full_line_optional:
    "full_line channel oid item_id ''buyer-phone-number'' = None"
    "full_line channel oid item_id ''ship-phone-number'' = None"
    "full_line channel oid item_id ''is-business-order'' = None"
    "full_line channel oid item_id ''is-prime'' = None"
    "full_line channel oid item_id ''is-premium-order'' = None"
    "full_line channel oid item_id ''is-iba'' = None"
  by (simp_all add: full_line_def)

lemmas builder_defs = amazon_envelope_def message_def order_report_def node_def leaf_def
  billing_data_def fulfillment_data_def item_element_def component_def fee_def amount_def
  str_of_def getitem_def get_def flag_text_def

lemma item_element_full: "\<exists>e. item_element (full_line c oid i) = Inr e"
  by (simp add: builder_defs full_line_fields)

lemma envelope_two_orders:
  "\<exists>env. amazon_envelope
      [(Str ''111'', [full_line ''A'' ''111'' ''1'', full_line ''A'' ''111'' ''3'']),
       (Str ''222'', [full_line ''A'' ''222'' ''2''])] ''M'' uuid_fixed = Inr env"
  by (simp add: builder_defs full_line_fields full_line_optional enumerate_eq_zip upt_rec)

theorem message_numbering_first_seen_witness:
  "collect_per_channel []
      [full_line ''A'' ''111'' ''1'', full_line ''A'' ''222'' ''2'', full_line ''A'' ''111'' ''3'']
     = Inr [(Str ''A'',
          [full_line ''A'' ''111'' ''1'', full_line ''A'' ''222'' ''2'', full_line ''A'' ''111'' ''3''])]
   \<and> group_order_lines []
      [full_line ''A'' ''111'' ''1'', full_line ''A'' ''222'' ''2'', full_line ''A'' ''111'' ''3'']
     = Inr [(Str ''111'', [full_line ''A'' ''111'' ''1'', full_line ''A'' ''111'' ''3'']),
            (Str ''222'', [full_line ''A'' ''222'' ''2''])]
   \<and> (\<exists>env. amazon_envelope
          [(Str ''111'', [full_line ''A'' ''111'' ''1'', full_line ''A'' ''111'' ''3'']),
           (Str ''222'', [full_line ''A'' ''222'' ''2''])] ''M'' uuid_fixed = Inr env
        \<and> map (findtext [''MessageID'']) (findall ''Message'' env)
            = [Some (Str ''1''), Some (Str ''2'')]
        \<and> map (findtext [''OrderReport'', ''AmazonOrderID'']) (findall ''Message'' env)
            = [Some (Str ''111''), Some (Str ''222'')])"
proof -
  let ?data = "[full_line ''A'' ''111'' ''1'', full_line ''A'' ''222'' ''2'', full_line ''A'' ''111'' ''3'']"
  let ?orders = "[(Str ''111'', [full_line ''A'' ''111'' ''1'', full_line ''A'' ''111'' ''3'']),
            (Str ''222'', [full_line ''A'' ''222'' ''2''])]"
  have h1: "collect_per_channel [] ?data = Inr [(Str ''A'', ?data)]"
    by (simp add: getitem_def full_line_fields contains_def setitem_new_def append_at_def)
  have h2: "(Str ''A'', ?data) \<in> set [(Str ''A'', ?data)]" by simp
  have h3: "group_order_lines [] ?data = Inr ?orders"
    by (simp add: getitem_def full_line_fields contains_def setitem_new_def append_at_def)
  from envelope_two_orders obtain env where
    h4: "amazon_envelope ?orders ''M'' uuid_fixed = Inr env" by blast
  have ids: "first_seen (map (field ''order-id'') ?data) = [Str ''111'', Str ''222'']"
    by (simp add: field_def get_def full_line_fields)
  have nums: "map (\<lambda>i. Some (Str (str_nat (Suc i)))) [0..<length ?orders]
      = [Some (Str ''1''), Some (Str ''2'')]"
    by (simp add: upt_rec str_nat.simps digit_char_def)
  note t = message_numbering_first_seen[OF h1 h2 h3 h4]
  have a: "map (findtext [''MessageID'']) (findall ''Message'' env)
            = [Some (Str ''1''), Some (Str ''2'')]"
    using t[THEN conjunct2, THEN conjunct2, THEN conjunct2, THEN conjunct1]
    by (simp only: nums)
  have b: "map (findtext [''OrderReport'', ''AmazonOrderID'']) (findall ''Message'' env)
            = [Some (Str ''111''), Some (Str ''222'')]"
    using t[THEN conjunct2, THEN conjunct2, THEN conjunct2, THEN conjunct2]
    by (simp add: field_def get_def full_line_fields)
  show ?thesis
  proof (intro conjI)
    show "collect_per_channel [] ?data = Inr [(Str ''A'', ?data)]" by (rule h1)
    show "group_order_lines [] ?data = Inr ?orders" by (rule h3)
    show "\<exists>env. amazon_envelope ?orders ''M'' uuid_fixed = Inr env
        \<and> map (findtext [''MessageID'']) (findall ''Message'' env)
            = [Some (Str ''1''), Some (Str ''2'')]
        \<and> map (findtext [''OrderReport'', ''AmazonOrderID'']) (findall ''Message'' env)
            = [Some (Str ''111''), Some (Str ''222'')]"
      using h4 a b by (intro exI[of _ env] conjI)
  qed
qed

lemma report_found:
  assumes "m = Element ''Message'' [] NoneVal [Element ''MessageID'' [] t [], rep]"
    and "tag rep = ''OrderReport''"
  shows "find_path (''OrderReport'' # path) m = find_path path rep"
  using assms by simp

lemma order_level_texts:
  assumes "amazon_envelope orders merchant_id uuid4 = Inr env"
    and "i < length orders"
    and "snd (orders ! i) = first # rest"
  shows "findtext [''OrderReport'', ''BillingData'', ''BuyerPhoneNumber'']
              (findall ''Message'' env ! i) = Some (get first ''buyer-phone-number'' (Str ''''))"
    and "findtext [''OrderReport'', ''FulfillmentData'', ''Address'', ''PhoneNumber'']
              (findall ''Message'' env ! i) = Some (get first ''ship-phone-number'' (Str ''''))"
    and "findtext [''OrderReport'', ''IsBusinessOrder''] (findall ''Message'' env ! i)
              = Some (flag_text first ''is-business-order'')"
    and "findtext [''OrderReport'', ''IsPrime''] (findall ''Message'' env ! i)
              = Some (flag_text first ''is-prime'')"
    and "findtext [''OrderReport'', ''IsPremiumOrder''] (findall ''Message'' env ! i)
              = Some (flag_text first ''is-premium-order'')"
    and "findtext [''OrderReport'', ''IsIba''] (findall ''Message'' env ! i)
              = Some (flag_text first ''is-iba'')"
proof -
  from assms(1,2) obtain first' rest' rep pd pp bill ful items where
    l: "snd (orders ! i) = first' # rest'"
    and e: "findall ''Message'' env ! i =
           Element ''Message'' [] NoneVal [Element ''MessageID'' [] (Str (str_nat (Suc i))) [], rep]"
    and t: "tag rep = ''OrderReport''"
    and c: "children rep =
       [Element ''AmazonOrderID'' [] (fst (orders ! i)) [],
        Element ''AmazonSessionID'' [] (Str (uuid4 (Suc i))) [],
        Element ''OrderDate'' [] pd [],
        Element ''OrderPostedDate'' [] pp [],
        bill, ful,
        Element ''IsBusinessOrder'' [] (flag_text first' ''is-business-order'') [],
        Element ''IsPrime'' [] (flag_text first' ''is-prime'') [],
        Element ''IsPremiumOrder'' [] (flag_text first' ''is-premium-order'') [],
        Element ''IsIba'' [] (flag_text first' ''is-iba'') []] @ items"
    and b: "billing_data first' = Inr bill" and f: "fulfillment_data first' = Inr ful"
    by (rule message_structure)
  from l assms(3) have ff: "first' = first" by simp
  from billing_data_children[OF b] obtain em bn addr where
    tb: "tag bill = ''BillingData''"
    and cb: "children bill =
       [Element ''BuyerEmailAddress'' [] em [], Element ''BuyerName'' [] bn [],
        Element ''BuyerPhoneNumber'' [] (get first' ''buyer-phone-number'' (Str '''')) [], addr]"
    by blast
  from fulfillment_data_children[OF f] obtain sl faddr n a1 a2 a3 ci s p cc where
    tf: "tag ful = ''FulfillmentData''"
    and cf: "children ful =
       [Element ''FulfillmentMethod'' [] (Str ''Ship'') [],
        Element ''FulfillmentServiceLevel'' [] sl [], faddr]"
    and ta: "tag faddr = ''Address''"
    and ca: "children faddr =
          [Element ''Name'' [] n [], Element ''AddressFieldOne'' [] a1 [],
           Element ''AddressFieldTwo'' [] a2 [], Element ''AddressFieldThree'' [] a3 [],
           Element ''City'' [] ci [], Element ''StateOrRegion'' [] s [],
           Element ''PostalCode'' [] p [], Element ''CountryCode'' [] cc [],
           Element ''PhoneNumber'' [] (get first' ''ship-phone-number'' (Str '''')) []]"
    by blast
  show "findtext [''OrderReport'', ''BillingData'', ''BuyerPhoneNumber'']
              (findall ''Message'' env ! i) = Some (get first ''buyer-phone-number'' (Str ''''))"
    unfolding findtext_def report_found[OF e t] by (simp add: c tb cb ff)
  show "findtext [''OrderReport'', ''FulfillmentData'', ''Address'', ''PhoneNumber'']
              (findall ''Message'' env ! i) = Some (get first ''ship-phone-number'' (Str ''''))"
    unfolding findtext_def report_found[OF e t] by (simp add: c tb tf cf ta ca ff)
  show "findtext [''OrderReport'', ''IsBusinessOrder''] (findall ''Message'' env ! i)
              = Some (flag_text first ''is-business-order'')"
    unfolding findtext_def report_found[OF e t] by (simp add: c tb tf ff)
  show "findtext [''OrderReport'', ''IsPrime''] (findall ''Message'' env ! i)
              = Some (flag_text first ''is-prime'')"
    unfolding findtext_def report_found[OF e t] by (simp add: c tb tf ff)
  show "findtext [''OrderReport'', ''IsPremiumOrder''] (findall ''Message'' env ! i)
              = Some (flag_text first ''is-premium-order'')"
    unfolding findtext_def report_found[OF e t] by (simp add: c tb tf ff)
  show "findtext [''OrderReport'', ''IsIba''] (findall ''Message'' env ! i)
              = Some (flag_text first ''is-iba'')"
    unfolding findtext_def report_found[OF e t] by (simp add: c tb tf ff)
qed

lemma flag_text_absent: "first k = None \<Longrightarrow> flag_text first k = Str ''false''"
  by (simp add: flag_text_def get_def lower_def lower_char_def)

lemma flag_text_present: "first k = Some v \<Longrightarrow> flag_text first k = Str (lower (py_str v))"
  by (simp add: flag_text_def get_def)

text \<open>
  C6. Defaults of the optional order-level fields. In the message of an order whose
  first line has no \<open>buyer-phone-number\<close> the \<open>BuyerPhoneNumber\<close> text is the empty
  string, without \<open>ship-phone-number\<close> the \<open>PhoneNumber\<close> text of the fulfillment address
  is the empty string, and each of the four flags that the line lacks is rendered as
  the string \<open>false\<close>.
\<close>

theorem optional_fields_default:
  assumes "amazon_envelope orders merchant_id uuid4 = Inr env"
    and "i < length orders"
    and "snd (orders ! i) = first # rest"
  shows "(first ''buyer-phone-number'' = None \<longrightarrow>
            findtext [''OrderReport'', ''BillingData'', ''BuyerPhoneNumber'']
              (findall ''Message'' env ! i) = Some (Str ''''))
       \<and> (first ''ship-phone-number'' = None \<longrightarrow>
            findtext [''OrderReport'', ''FulfillmentData'', ''Address'', ''PhoneNumber'']
              (findall ''Message'' env ! i) = Some (Str ''''))
       \<and> (first ''is-business-order'' = None \<longrightarrow>
            findtext [''OrderReport'', ''IsBusinessOrder''] (findall ''Message'' env ! i)
              = Some (Str ''false''))
       \<and> (first ''is-prime'' = None \<longrightarrow>
            findtext [''OrderReport'', ''IsPrime''] (findall ''Message'' env ! i)
              = Some (Str ''false''))
       \<and> (first ''is-premium-order'' = None \<longrightarrow>
            findtext [''OrderReport'', ''IsPremiumOrder''] (findall ''Message'' env ! i)
              = Some (Str ''false''))
       \<and> (first ''is-iba'' = None \<longrightarrow>
            findtext [''OrderReport'', ''IsIba''] (findall ''Message'' env ! i)
              = Some (Str ''false''))"
proof -
  note t = order_level_texts[OF assms]
  show ?thesis
    unfolding t by (simp add: flag_text_absent get_def)
qed

text \<open>
  C10. A flag that is present on the first line of an order is rendered as the
  lower-cased \<open>str\<close> of its stored value: \<open>str(value).lower()\<close>. A stored \<open>TRUE\<close> or
  \<open>True\<close> is rendered as \<open>true\<close>.
\<close>

theorem present_flags_lowercased:
  assumes "amazon_envelope orders merchant_id uuid4 = Inr env"
    and "i < length orders"
    and "snd (orders ! i) = first # rest"
  shows "(\<forall>v. first ''is-business-order'' = Some v \<longrightarrow>
            findtext [''OrderReport'', ''IsBusinessOrder''] (findall ''Message'' env ! i)
              = Some (Str (lower (py_str v))))
       \<and> (\<forall>v. first ''is-prime'' = Some v \<longrightarrow>
            findtext [''OrderReport'', ''IsPrime''] (findall ''Message'' env ! i)
              = Some (Str (lower (py_str v))))
       \<and> (\<forall>v. first ''is-premium-order'' = Some v \<longrightarrow>
            findtext [''OrderReport'', ''IsPremiumOrder''] (findall ''Message'' env ! i)
              = Some (Str (lower (py_str v))))
       \<and> (\<forall>v. first ''is-iba'' = Some v \<longrightarrow>
            findtext [''OrderReport'', ''IsIba''] (findall ''Message'' env ! i)
              = Some (Str (lower (py_str v))))
       \<and> lower (py_str (Str ''TRUE'')) = ''true''
       \<and> lower (py_str (Str ''True'')) = ''true''"
proof -
  note t = order_level_texts[OF assms]
  have "lower (py_str (Str ''TRUE'')) = ''true''" "lower (py_str (Str ''True'')) = ''true''"
    by (simp_all add: lower_def lower_char_def)
  then show ?thesis
    unfolding t by (simp add: flag_text_present)
qed

lemma envelope_one_order:
  "\<exists>env. amazon_envelope [(Str ''111'', [full_line ''A'' ''111'' ''1''])] ''M'' uuid_fixed = Inr env"
  by (simp add: builder_defs full_line_fields full_line_optional enumerate_eq_zip upt_rec)

lemma envelope_flagged_order:
  "\<exists>env. amazon_envelope [(Str ''111'', [flagged_line])] ''M'' uuid_fixed = Inr env"
  by (simp add: builder_defs flagged_line_def full_line_fields full_line_optional
      enumerate_eq_zip upt_rec)

theorem optional_fields_default_witness:
  "\<exists>env. amazon_envelope [(Str ''111'', [full_line ''A'' ''111'' ''1''])] ''M'' uuid_fixed = Inr env
     \<and> findtext [''OrderReport'', ''BillingData'', ''BuyerPhoneNumber'']
          (findall ''Message'' env ! 0) = Some (Str '''')
     \<and> findtext [''OrderReport'', ''FulfillmentData'', ''Address'', ''PhoneNumber'']
          (findall ''Message'' env ! 0) = Some (Str '''')
     \<and> findtext [''OrderReport'', ''IsBusinessOrder''] (findall ''Message'' env ! 0)
          = Some (Str ''false'')
     \<and> findtext [''OrderReport'', ''IsPrime''] (findall ''Message'' env ! 0)
          = Some (Str ''false'')
     \<and> findtext [''OrderReport'', ''IsPremiumOrder''] (findall ''Message'' env ! 0)
          = Some (Str ''false'')
     \<and> findtext [''OrderReport'', ''IsIba''] (findall ''Message'' env ! 0)
          = Some (Str ''false'')"
proof -
  let ?orders = "[(Str ''111'', [full_line ''A'' ''111'' ''1''])]"
  from envelope_one_order obtain env where
    h: "amazon_envelope ?orders ''M'' uuid_fixed = Inr env" ..
  have i: "0 < length ?orders" by simp
  have l: "snd (?orders ! 0) = full_line ''A'' ''111'' ''1'' # []" by simp
  note t = optional_fields_default[OF h i l]
  show ?thesis
    using h t by (intro exI[of _ env]) (simp only: full_line_optional simp_thms)
qed

theorem present_flags_lowercased_witness:
  "\<exists>env. amazon_envelope [(Str ''111'', [flagged_line])] ''M'' uuid_fixed = Inr env
     \<and> findtext [''OrderReport'', ''IsBusinessOrder''] (findall ''Message'' env ! 0)
          = Some (Str ''true'')
     \<and> findtext [''OrderReport'', ''IsPrime''] (findall ''Message'' env ! 0)
          = Some (Str ''true'')
     \<and> findtext [''OrderReport'', ''IsPremiumOrder''] (findall ''Message'' env ! 0)
          = Some (Str ''false'')
     \<and> findtext [''OrderReport'', ''IsIba''] (findall ''Message'' env ! 0)
          = Some (Str ''false'')"
proof -
  let ?orders = "[(Str ''111'', [flagged_line])]"
  from envelope_flagged_order obtain env where
    h: "amazon_envelope ?orders ''M'' uuid_fixed = Inr env" ..
  have i: "0 < length ?orders" by simp
  have l: "snd (?orders ! 0) = flagged_line # []" by simp
  note t = present_flags_lowercased[OF h i l]
  have f: "flagged_line ''is-business-order'' = Some (Str ''True'')"
    "flagged_line ''is-prime'' = Some (Str ''TRUE'')"
    "flagged_line ''is-premium-order'' = Some (Str ''false'')"
    "flagged_line ''is-iba'' = Some (Str ''FALSE'')"
    by (simp_all add: flagged_line_def)
  have lo: "lower (py_str (Str ''True'')) = ''true''" "lower (py_str (Str ''TRUE'')) = ''true''"
    "lower (py_str (Str ''false'')) = ''false''" "lower (py_str (Str ''FALSE'')) = ''false''"
    by (simp_all add: lower_def lower_char_def)
  from t f have
    "findtext [''OrderReport'', ''IsBusinessOrder''] (findall ''Message'' env ! 0)
          = Some (Str (lower (py_str (Str ''True''))))"
    "findtext [''OrderReport'', ''IsPrime''] (findall ''Message'' env ! 0)
          = Some (Str (lower (py_str (Str ''TRUE''))))"
    "findtext [''OrderReport'', ''IsPremiumOrder''] (findall ''Message'' env ! 0)
          = Some (Str (lower (py_str (Str ''false''))))"
    "findtext [''OrderReport'', ''IsIba''] (findall ''Message'' env ! 0)
          = Some (Str (lower (py_str (Str ''FALSE''))))"
    by blast+
  then show ?thesis
    using h unfolding lo by (intro exI[of _ env]) simp
qed

lemma items_all_tagged:
  assumes "map item_element lines = map Inr items"
  shows "filter (\<lambda>c. tag c = ''Item'') items = items"
proof -
  have "tag x = ''Item''" if "x \<in> set items" for x
  proof -
    from that obtain j where j: "j < length items" and x: "x = items ! j"
      by (auto simp: in_set_conv_nth)
    from assms have "length lines = length items"
      by (metis length_map)
    with assms j have "item_element (lines ! j) = Inr (items ! j)"
      by (metis nth_map)
    from item_element_tree[OF this] show ?thesis by (auto simp: x)
  qed
  then show ?thesis by (simp add: filter_id_conv)
qed

lemma report_items:
  assumes env: "amazon_envelope orders mid u = Inr env" and i: "i < length orders"
  obtains rep items where
    "find_path [''OrderReport''] (findall ''Message'' env ! i) = Some rep"
    and "findall ''Item'' rep = items"
    and "map item_element (snd (orders ! i)) = map Inr items"
proof -
  from env i obtain first rest rep pd pp bill ful items where
    e: "findall ''Message'' env ! i =
           Element ''Message'' [] NoneVal [Element ''MessageID'' [] (Str (str_nat (Suc i))) [], rep]"
    and t: "tag rep = ''OrderReport''"
    and c: "children rep =
       [Element ''AmazonOrderID'' [] (fst (orders ! i)) [],
        Element ''AmazonSessionID'' [] (Str (u (Suc i))) [],
        Element ''OrderDate'' [] pd [],
        Element ''OrderPostedDate'' [] pp [],
        bill, ful,
        Element ''IsBusinessOrder'' [] (flag_text first ''is-business-order'') [],
        Element ''IsPrime'' [] (flag_text first ''is-prime'') [],
        Element ''IsPremiumOrder'' [] (flag_text first ''is-premium-order'') [],
        Element ''IsIba'' [] (flag_text first ''is-iba'') []] @ items"
    and b: "billing_data first = Inr bill" and f: "fulfillment_data first = Inr ful"
    and its: "map item_element (snd (orders ! i)) = map Inr items"
    by (rule message_structure)
  from billing_data_children[OF b] have tb: "tag bill = ''BillingData''" by blast
  from fulfillment_data_children[OF f] have tf: "tag ful = ''FulfillmentData''" by blast
  have 1: "find_path [''OrderReport''] (findall ''Message'' env ! i) = Some rep"
    by (simp add: e t)
  have 2: "findall ''Item'' rep = items"
    by (simp add: findall_def c tb tf items_all_tagged[OF its])
  from 1 2 its that show ?thesis by blast
qed

text \<open>
  C5. Price and fee components of a line item. For the line at position \<open>j\<close> of the
  order at position \<open>i\<close>, whose four price fields and fee field hold the strings
  \<open>p\<close>, \<open>s\<close>, \<open>t\<close>, \<open>st\<close>, \<open>f\<close> and whose currency field holds \<open>c\<close>: the \<open>j\<close>-th \<open>Item\<close>
  of the order's report has one \<open>ItemPrice\<close> with exactly the four components
  Principal, Shipping, Tax, ShippingTax in this order, with the Amount texts \<open>p\<close>, \<open>s\<close>,
  \<open>t\<close>, \<open>st\<close> unchanged, and one \<open>ItemFees\<close> with exactly one Commission fee with the
  Amount text \<open>f\<close>; every Amount has the one attribute \<open>currency\<close> with the value \<open>c\<close>.
\<close>

theorem item_price_and_fee_components:
  assumes "amazon_envelope orders merchant_id uuid4 = Inr env"
    and "i < length orders"
    and "j < length (snd (orders ! i))"
    and "snd (orders ! i) ! j = item"
    and "item ''item-price'' = Some (Str p)"
    and "item ''shipping-price'' = Some (Str s)"
    and "item ''item-tax'' = Some (Str t)"
    and "item ''shipping-tax'' = Some (Str st)"
    and "item ''payment-method-fee'' = Some (Str f)"
    and "item ''currency'' = Some c"
  shows "\<exists>rep. find_path [''OrderReport''] (findall ''Message'' env ! i) = Some rep
      \<and> length (findall ''Item'' rep) = length (snd (orders ! i))
      \<and> findall ''ItemPrice'' (findall ''Item'' rep ! j) =
          [Element ''ItemPrice'' [] NoneVal
             [Element ''Component'' [] NoneVal
                [Element ''Type'' [] (Str ''Principal'') [],
                 Element ''Amount'' [(''currency'', c)] (Str p) []],
              Element ''Component'' [] NoneVal
                [Element ''Type'' [] (Str ''Shipping'') [],
                 Element ''Amount'' [(''currency'', c)] (Str s) []],
              Element ''Component'' [] NoneVal
                [Element ''Type'' [] (Str ''Tax'') [],
                 Element ''Amount'' [(''currency'', c)] (Str t) []],
              Element ''Component'' [] NoneVal
                [Element ''Type'' [] (Str ''ShippingTax'') [],
                 Element ''Amount'' [(''currency'', c)] (Str st) []]]]
      \<and> findall ''ItemFees'' (findall ''Item'' rep ! j) =
          [Element ''ItemFees'' [] NoneVal
             [Element ''Fee'' [] NoneVal
                [Element ''Type'' [] (Str ''Commission'') [],
                 Element ''Amount'' [(''currency'', c)] (Str f) []]]]"
proof -
  from assms(1,2) obtain rep items where
    r: "find_path [''OrderReport''] (findall ''Message'' env ! i) = Some rep"
    and fi: "findall ''Item'' rep = items"
    and its: "map item_element (snd (orders ! i)) = map Inr items"
    by (rule report_items)
  from its have len: "length items = length (snd (orders ! i))"
    by (metis length_map)
  from its assms(3) have "map item_element (snd (orders ! i)) ! j = map Inr items ! j" by simp
  with assms(3,4) len have ie: "item_element item = Inr (items ! j)" by simp
  from item_element_tree[OF ie] assms(5-10) have
    "items ! j = Element ''Item'' [] NoneVal
        [Element ''AmazonOrderItemCode'' [] (field ''order-item-id'' item) [],
         Element ''SKU'' [] (field ''sku'' item) [],
         Element ''Title'' [] (field ''product-name'' item) [],
         Element ''Quantity'' [] (Str (py_str (field ''quantity-purchased'' item))) [],
         Element ''ProductTaxCode'' [] (Str ''A_GEN_STANDARD'') [],
         Element ''ItemPrice'' [] NoneVal
           [Element ''Component'' [] NoneVal
              [Element ''Type'' [] (Str ''Principal'') [],
               Element ''Amount'' [(''currency'', c)] (Str p) []],
            Element ''Component'' [] NoneVal
              [Element ''Type'' [] (Str ''Shipping'') [],
               Element ''Amount'' [(''currency'', c)] (Str s) []],
            Element ''Component'' [] NoneVal
              [Element ''Type'' [] (Str ''Tax'') [],
               Element ''Amount'' [(''currency'', c)] (Str t) []],
            Element ''Component'' [] NoneVal
              [Element ''Type'' [] (Str ''ShippingTax'') [],
               Element ''Amount'' [(''currency'', c)] (Str st) []]],
         Element ''ItemFees'' [] NoneVal
           [Element ''Fee'' [] NoneVal
              [Element ''Type'' [] (Str ''Commission'') [],
               Element ''Amount'' [(''currency'', c)] (Str f) []]]]"
    by (auto simp: field_def get_def)
  then have "findall ''ItemPrice'' (items ! j) =
          [Element ''ItemPrice'' [] NoneVal
             [Element ''Component'' [] NoneVal
                [Element ''Type'' [] (Str ''Principal'') [],
                 Element ''Amount'' [(''currency'', c)] (Str p) []],
              Element ''Component'' [] NoneVal
                [Element ''Type'' [] (Str ''Shipping'') [],
                 Element ''Amount'' [(''currency'', c)] (Str s) []],
              Element ''Component'' [] NoneVal
                [Element ''Type'' [] (Str ''Tax'') [],
                 Element ''Amount'' [(''currency'', c)] (Str t) []],
              Element ''Component'' [] NoneVal
                [Element ''Type'' [] (Str ''ShippingTax'') [],
                 Element ''Amount'' [(''currency'', c)] (Str st) []]]]"
    and "findall ''ItemFees'' (items ! j) =
          [Element ''ItemFees'' [] NoneVal
             [Element ''Fee'' [] NoneVal
                [Element ''Type'' [] (Str ''Commission'') [],
                 Element ''Amount'' [(''currency'', c)] (Str f) []]]]"
    by (simp_all add: findall_def)
  with r fi len show ?thesis by simp
qed

theorem item_price_and_fee_components_witness:
  "\<exists>env rep. amazon_envelope [(Str ''111'', [full_line ''A'' ''111'' ''1''])] ''M'' uuid_fixed = Inr env
      \<and> find_path [''OrderReport''] (findall ''Message'' env ! 0) = Some rep
      \<and> length (findall ''Item'' rep) = 1
      \<and> findall ''ItemPrice'' (findall ''Item'' rep ! 0) =
          [Element ''ItemPrice'' [] NoneVal
             [Element ''Component'' [] NoneVal
                [Element ''Type'' [] (Str ''Principal'') [],
                 Element ''Amount'' [(''currency'', Str ''USD'')] (Str ''19.99'') []],
              Element ''Component'' [] NoneVal
                [Element ''Type'' [] (Str ''Shipping'') [],
                 Element ''Amount'' [(''currency'', Str ''USD'')] (Str ''4.50'') []],
              Element ''Component'' [] NoneVal
                [Element ''Type'' [] (Str ''Tax'') [],
                 Element ''Amount'' [(''currency'', Str ''USD'')] (Str ''1.60'') []],
              Element ''Component'' [] NoneVal
                [Element ''Type'' [] (Str ''ShippingTax'') [],
                 Element ''Amount'' [(''currency'', Str ''USD'')] (Str ''0.36'') []]]]
      \<and> findall ''ItemFees'' (findall ''Item'' rep ! 0) =
          [Element ''ItemFees'' [] NoneVal
             [Element ''Fee'' [] NoneVal
                [Element ''Type'' [] (Str ''Commission'') [],
                 Element ''Amount'' [(''currency'', Str ''USD'')] (Str ''0.00'') []]]]"
proof -
  let ?orders = "[(Str ''111'', [full_line ''A'' ''111'' ''1''])]"
  from envelope_one_order obtain env where
    h: "amazon_envelope ?orders ''M'' uuid_fixed = Inr env" ..
  have i: "0 < length ?orders" by simp
  have j: "0 < length (snd (?orders ! 0))" by simp
  have l: "snd (?orders ! 0) ! 0 = full_line ''A'' ''111'' ''1''" by simp
  from item_price_and_fee_components[OF h i j l full_line_fields(29) full_line_fields(30)
      full_line_fields(31) full_line_fields(32) full_line_fields(33) full_line_fields(28)]
  obtain rep where
    "find_path [''OrderReport''] (findall ''Message'' env ! 0) = Some rep
      \<and> length (findall ''Item'' rep) = length (snd (?orders ! 0))
      \<and> findall ''ItemPrice'' (findall ''Item'' rep ! 0) =
          [Element ''ItemPrice'' [] NoneVal
             [Element ''Component'' [] NoneVal
                [Element ''Type'' [] (Str ''Principal'') [],
                 Element ''Amount'' [(''currency'', Str ''USD'')] (Str ''19.99'') []],
              Element ''Component'' [] NoneVal
                [Element ''Type'' [] (Str ''Shipping'') [],
                 Element ''Amount'' [(''currency'', Str ''USD'')] (Str ''4.50'') []],
              Element ''Component'' [] NoneVal
                [Element ''Type'' [] (Str ''Tax'') [],
                 Element ''Amount'' [(''currency'', Str ''USD'')] (Str ''1.60'') []],
              Element ''Component'' [] NoneVal
                [Element ''Type'' [] (Str ''ShippingTax'') [],
                 Element ''Amount'' [(''currency'', Str ''USD'')] (Str ''0.36'') []]]]
      \<and> findall ''ItemFees'' (findall ''Item'' rep ! 0) =
          [Element ''ItemFees'' [] NoneVal
             [Element ''Fee'' [] NoneVal
                [Element ''Type'' [] (Str ''Commission'') [],
                 Element ''Amount'' [(''currency'', Str ''USD'')] (Str ''0.00'') []]]]" ..
  with h show ?thesis
    by (intro exI[of _ env] exI[of _ rep]) simp
qed

text \<open>
  C8. Lines with one order id under different channels are split. For two input
  records with the same order id and different sales channels, the grouped structure
  has a slot for that order id under each of the two channels, the first record is in
  the slot of its own channel and not in the other, likewise the second, and no slot
  holds both.
\<close>

theorem same_order_id_split_by_channel:
  assumes "\<forall>r \<in> set data. r ''sales-channel'' \<noteq> None \<and> r ''order-id'' \<noteq> None"
    and "r1 \<in> set data" and "r2 \<in> set data"
    and "r1 ''order-id'' = Some oid" and "r2 ''order-id'' = Some oid"
    and "r1 ''sales-channel'' = Some c1" and "r2 ''sales-channel'' = Some c2"
    and "c1 \<noteq> c2"
  shows "\<exists>g ls1 ls2. grouped data = Inr g
           \<and> ((c1, oid), ls1) \<in> set (slots g) \<and> ((c2, oid), ls2) \<in> set (slots g)
           \<and> r1 \<in> set ls1 \<and> r2 \<in> set ls2 \<and> r1 \<notin> set ls2 \<and> r2 \<notin> set ls1
           \<and> (\<forall>(k, ls) \<in> set (slots g). \<not> (r1 \<in> set ls \<and> r2 \<in> set ls))"
proof -
  from grouped_slots[OF assms(1)] obtain g where
    g: "grouped data = Inr g"
    and sl: "\<forall>((c, oid), ls) \<in> set (slots g).
                 ls = filter (\<lambda>r. r ''sales-channel'' = Some c \<and> r ''order-id'' = Some oid) data"
    and own: "\<forall>r \<in> set data. \<exists>c oid ls.
                 r ''sales-channel'' = Some c \<and> r ''order-id'' = Some oid
                 \<and> ((c, oid), ls) \<in> set (slots g) \<and> r \<in> set ls"
    by blast
  from own assms(2,4,6) obtain ls1 where 1: "((c1, oid), ls1) \<in> set (slots g)" and m1: "r1 \<in> set ls1"
    by fastforce
  from own assms(3,5,7) obtain ls2 where 2: "((c2, oid), ls2) \<in> set (slots g)" and m2: "r2 \<in> set ls2"
    by fastforce
  from sl 1 have f1: "ls1 = filter (\<lambda>r. r ''sales-channel'' = Some c1 \<and> r ''order-id'' = Some oid) data"
    by fastforce
  from sl 2 have f2: "ls2 = filter (\<lambda>r. r ''sales-channel'' = Some c2 \<and> r ''order-id'' = Some oid) data"
    by fastforce
  from f2 assms(6,8) have n1: "r1 \<notin> set ls2" by auto
  from f1 assms(7,8) have n2: "r2 \<notin> set ls1" by auto
  have no: "\<not> (r1 \<in> set ls \<and> r2 \<in> set ls)" if "(k, ls) \<in> set (slots g)" for k ls
  proof -
    obtain c o' where k: "k = (c, o')" by (cases k)
    with sl that have "ls = filter (\<lambda>r. r ''sales-channel'' = Some c \<and> r ''order-id'' = Some o') data"
      by fastforce
    with assms(6,7,8) show ?thesis by auto
  qed
  then have "\<forall>(k, ls) \<in> set (slots g). \<not> (r1 \<in> set ls \<and> r2 \<in> set ls)"
    by auto
  with g 1 2 m1 m2 n1 n2 show ?thesis by blast
qed

theorem same_order_id_split_by_channel_witness:
  "list_all (\<lambda>r. r ''sales-channel'' \<noteq> None \<and> r ''order-id'' \<noteq> None) [rec_a1, rec_b1, rec_a2]
   \<and> rec_a1 ''order-id'' = rec_b1 ''order-id''
   \<and> rec_a1 ''sales-channel'' \<noteq> rec_b1 ''sales-channel''
   \<and> (\<exists>g ls1 ls2. grouped [rec_a1, rec_b1, rec_a2] = Inr g
          \<and> ((Str ''Amazon.com'', Str ''111''), ls1) \<in> set (slots g)
          \<and> ((Str ''Amazon.ca'', Str ''111''), ls2) \<in> set (slots g)
          \<and> rec_a1 \<in> set ls1 \<and> rec_b1 \<in> set ls2 \<and> rec_a1 \<notin> set ls2 \<and> rec_b1 \<notin> set ls1)"
proof -
  have h: "\<forall>r \<in> set [rec_a1, rec_b1, rec_a2]. r ''sales-channel'' \<noteq> None \<and> r ''order-id'' \<noteq> None"
    by (simp add: rec_a1_def rec_b1_def rec_a2_def)
  have m1: "rec_a1 \<in> set [rec_a1, rec_b1, rec_a2]" and m2: "rec_b1 \<in> set [rec_a1, rec_b1, rec_a2]"
    by simp_all
  have o1: "rec_a1 ''order-id'' = Some (Str ''111'')" and o2: "rec_b1 ''order-id'' = Some (Str ''111'')"
    and c1: "rec_a1 ''sales-channel'' = Some (Str ''Amazon.com'')"
    and c2: "rec_b1 ''sales-channel'' = Some (Str ''Amazon.ca'')"
    by (simp_all add: rec_a1_def rec_b1_def)
  have ne: "Str ''Amazon.com'' \<noteq> Str ''Amazon.ca''" by simp
  from same_order_id_split_by_channel[OF h m1 m2 o1 o2 c1 c2 ne]
  obtain g ls1 ls2 where "grouped [rec_a1, rec_b1, rec_a2] = Inr g"
    "((Str ''Amazon.com'', Str ''111''), ls1) \<in> set (slots g)"
    "((Str ''Amazon.ca'', Str ''111''), ls2) \<in> set (slots g)"
    "rec_a1 \<in> set ls1" "rec_b1 \<in> set ls2" "rec_a1 \<notin> set ls2" "rec_b1 \<notin> set ls1"
    by blast
  then have "\<exists>g ls1 ls2. grouped [rec_a1, rec_b1, rec_a2] = Inr g
          \<and> ((Str ''Amazon.com'', Str ''111''), ls1) \<in> set (slots g)
          \<and> ((Str ''Amazon.ca'', Str ''111''), ls2) \<in> set (slots g)
          \<and> rec_a1 \<in> set ls1 \<and> rec_b1 \<in> set ls2 \<and> rec_a1 \<notin> set ls2 \<and> rec_b1 \<notin> set ls1"
    by blast
  with h o1 o2 c1 c2 show ?thesis by simp
qed

section \<open>The store query selects a doubly open range\<close>

text \<open>
  C3, as stated, fails at the start instant: a stored order dated exactly at the start
  instant, with the cancellation flag \<open>false\<close>, lies in the inclusive-exclusive range
  and is not returned.
\<close>

theorem query_start_instant_counterexample:
  "\<not> dt_less (mk_datetime 2024 12 23 13 45 0) start_date
   \<and> dt_less (mk_datetime 2024 12 23 13 45 0) end_date
   \<and> doc_at_start ''order_date'' = Some (Datetime (mk_datetime 2024 12 23 13 45 0))
   \<and> doc_at_start ''is-buyer-requested-cancellation'' = Some (Str ''false'')
   \<and> query_mongodb [doc_at_start] = []"
  by (simp add: query_mongodb_def find_docs_def matches_def query_def op_holds_def
      doc_at_start_def start_date_def end_date_def dt_less_def dt_key_def mk_datetime_def)

text \<open>
  C3, amended. The fixed filter selects exactly the stored records whose \<open>order_date\<close>
  is a date strictly after the start instant and strictly before the end instant and
  whose is-buyer-requested-cancellation field is the string \<open>false\<close>: every such record
  is returned, in the order of the collection, and no other.
\<close>

theorem query_selects_open_range:
  "query_mongodb col =
     filter (\<lambda>doc. \<exists>t. doc ''order_date'' = Some (Datetime t)
                     \<and> dt_less start_date t \<and> dt_less t end_date
                     \<and> doc ''is-buyer-requested-cancellation'' = Some (Str ''false'')) col"
proof -
  have "matches query doc \<longleftrightarrow>
      (\<exists>t. doc ''order_date'' = Some (Datetime t)
           \<and> dt_less start_date t \<and> dt_less t end_date
           \<and> doc ''is-buyer-requested-cancellation'' = Some (Str ''false''))" for doc
  proof (cases "doc ''order_date''")
    case None
    then show ?thesis by (simp add: matches_def query_def)
  next
    case (Some v)
    then show ?thesis
      by (cases v) (auto simp: matches_def query_def op_holds_def)
  qed
  then have "matches query = (\<lambda>doc. \<exists>t. doc ''order_date'' = Some (Datetime t)
           \<and> dt_less start_date t \<and> dt_less t end_date
           \<and> doc ''is-buyer-requested-cancellation'' = Some (Str ''false''))"
    by (intro ext)
  then show ?thesis
    by (simp only: query_mongodb_def find_docs_def)
qed

theorem query_selects_open_range_witness:
  "query_mongodb [doc_at_start, doc_after_start] = [doc_after_start]"
proof -
  have "(\<exists>t. doc_after_start ''order_date'' = Some (Datetime t)
           \<and> dt_less start_date t \<and> dt_less t end_date
           \<and> doc_after_start ''is-buyer-requested-cancellation'' = Some (Str ''false''))"
    by (simp add: doc_after_start_def start_date_def end_date_def dt_less_def dt_key_def
        mk_datetime_def)
  moreover have "\<not> (\<exists>t. doc_at_start ''order_date'' = Some (Datetime t)
           \<and> dt_less start_date t \<and> dt_less t end_date
           \<and> doc_at_start ''is-buyer-requested-cancellation'' = Some (Str ''false''))"
    by (simp add: doc_at_start_def start_date_def end_date_def dt_less_def dt_key_def
        mk_datetime_def)
  ultimately show ?thesis
    unfolding query_selects_open_range [of "[doc_at_start, doc_after_start]"] by simp
qed

section \<open>Rendering and the session id\<close>

lemma erased_simps: "erased (Inl e) = Inl e" "erased (Inr x) = Inr (erase_session x)"
  by (simp_all add: erased_def)

lemma sequence_erased:
  "sequence (map erased rs) =
     (case sequence rs of Inl e \<Rightarrow> Inl e | Inr xs \<Rightarrow> Inr (map erase_session xs))"
proof (induction rs)
  case Nil
  show ?case by simp
next
  case (Cons r rs)
  show ?case
  proof (cases r)
    case (Inl e)
    then show ?thesis by (simp add: erased_simps)
  next
    case (Inr x)
    with Cons.IH show ?thesis
      by (cases "sequence rs") (simp_all add: erased_simps)
  qed
qed

lemma erased_node:
  "tg \<noteq> ''AmazonSessionID'' \<Longrightarrow> erased (node tg a subs) = node tg a (map erased subs)"
  by (cases "sequence subs") (simp_all add: node_def sequence_erased erased_simps)

lemma erased_order_report:
  "erased (order_report oid order lines s1) = erased (order_report oid order lines s2)"
proof -
  have "erased (leaf ''AmazonSessionID'' (Inr (Str s1))) = erased (leaf ''AmazonSessionID'' (Inr (Str s2)))"
    by (simp add: leaf_def erased_simps)
  then show ?thesis
    by (simp add: order_report_def erased_node)
qed

lemma erased_message:
  "erased (message k oid lines s1) = erased (message k oid lines s2)"
proof (cases lines)
  case Nil
  then show ?thesis by (simp add: message_def)
next
  case (Cons first rest)
  then show ?thesis
    using erased_order_report[of oid first lines s1 s2]
    by (simp add: message_def erased_node)
qed

lemma erased_envelope:
  "erased (amazon_envelope orders mid u1) = erased (amazon_envelope orders mid u2)"
proof -
  have ne: "''AmazonEnvelope'' \<noteq> ''AmazonSessionID''" by simp
  have m: "map erased (map (\<lambda>(k, oid, lines). message k oid lines (u1 k)) (enumerate 1 orders))
      = map erased (map (\<lambda>(k, oid, lines). message k oid lines (u2 k)) (enumerate 1 orders))"
    by (auto simp: erased_message)
  have e: "erased (amazon_envelope orders mid u) =
      node ''AmazonEnvelope''
       [(''xmlns:xsi'', Str ''http://www.w3.org/2001/XMLSchema-instance''),
        (''xsi:noNamespaceSchemaLocation'', Str ''amzn-envelope.xsd'')]
       (erased (node ''Header'' []
           [leaf ''DocumentVersion'' (Inr (Str ''1.01'')),
            leaf ''MerchantIdentifier'' (Inr (Str mid))]) #
        erased (leaf ''MessageType'' (Inr (Str ''OrderReport''))) #
        map erased (map (\<lambda>(k, oid, lines). message k oid lines (u k)) (enumerate 1 orders)))" for u
    by (simp only: amazon_envelope_def erased_node[OF ne] list.map map_append append.simps)
  show ?thesis
    by (simp only: e m)
qed

lemma output_without_session_erased:
  "output_without_session orders mid u =
     (case erased (amazon_envelope orders mid u) of Inl e \<Rightarrow> Inl e | Inr x \<Rightarrow> serialize_xml x)"
  by (cases "amazon_envelope orders mid u") (simp_all add: output_without_session_def erased_simps)

text \<open>
  C9. Rendering is deterministic up to the session id. For one grouped batch and one
  merchant identifier, any two sequences of session ids drawn by two invocations give
  the same compact output once the texts of the \<open>AmazonSessionID\<close> elements are left
  out; and an invocation that raises does so whatever the session ids are, with the
  same error.
\<close>

theorem rendering_deterministic_up_to_session_id:
  "output_without_session orders merchant_id uuid4 = output_without_session orders merchant_id uuid4'
   \<and> (amazon_envelope orders merchant_id uuid4 = Inl e
        \<longleftrightarrow> amazon_envelope orders merchant_id uuid4' = Inl e)"
proof -
  note eq = erased_envelope[of orders merchant_id uuid4 uuid4']
  have 1: "output_without_session orders merchant_id uuid4
      = output_without_session orders merchant_id uuid4'"
    by (simp only: output_without_session_erased eq)
  have 2: "amazon_envelope orders merchant_id uuid4 = Inl e
        \<longleftrightarrow> amazon_envelope orders merchant_id uuid4' = Inl e"
    using eq
    by (cases "amazon_envelope orders merchant_id uuid4";
        cases "amazon_envelope orders merchant_id uuid4'") (simp_all add: erased_simps)
  from 1 2 show ?thesis by simp
qed

section \<open>The parser\<close>



lemma column_present:
  assumes "length row = length header" and "k \<in> set header"
  shows "\<exists>s. column header k row = Some s"
proof -
  from assms(1) have "map fst (zip header row) = header" by simp
  then have "fst ` set (zip header row) = set header"
    by (metis set_map)
  with assms(2) have "k \<in> fst ` set (rev (zip header row))" by simp
  then have "map_of (rev (zip header row)) k \<noteq> None"
    by (simp only: map_of_eq_None_iff not_not)
  then show ?thesis
    unfolding column_def by auto
qed

subsection \<open>Reading a tab-delimited table\<close>




















section \<open>A missing required field\<close>



































end
